theory Spec2Isabelle
  imports Complex_Main "HOL-Library.Word" "HOL-Library.Multiset"
begin

section \<open>Digital darkroom simulator: density model, persistence, histogram\<close>

text \<open>
  The simulator is written in JavaScript; its numbers are IEEE doubles. The development
  below reads the arithmetic of the source over the real numbers, and writes out the
  special values (\<open>NaN\<close>, \<open>\<plusminus>Infinity\<close>, \<open>undefined\<close> reads) wherever the source can
  produce them from a logarithm, a division or an array read.
\<close>

subsection \<open>The D-logE curve (src/script.js, densityFromLogE)\<close>

definition densityFromLogE :: "real \<Rightarrow> real \<Rightarrow> real \<Rightarrow> real \<Rightarrow> real \<Rightarrow> real" where
  "densityFromLogE logE Dmin Dmax k E0 =
     (let span = Dmax - Dmin;
          D = Dmin + span / (1 + exp (- k * (logE - E0)))
      in max Dmin (min D Dmax))"

subsection \<open>JavaScript numbers\<close>

text \<open>
  A number of the source is a finite real or one of the three special values. The sign of
  zero is not tracked. \<open>NaN\<close> also stands for \<open>undefined\<close> once it has entered
  arithmetic or a comparison, where JavaScript converts it to \<open>NaN\<close>.
\<close>

datatype jsnum = Fin real | PInf | NInf | NaN

fun js_neg :: "jsnum \<Rightarrow> jsnum" where
  "js_neg (Fin a) = Fin (- a)"
| "js_neg PInf = NInf"
| "js_neg NInf = PInf"
| "js_neg NaN = NaN"

fun js_add :: "jsnum \<Rightarrow> jsnum \<Rightarrow> jsnum" where
  "js_add (Fin a) (Fin b) = Fin (a + b)"
| "js_add (Fin a) PInf = PInf"
| "js_add (Fin a) NInf = NInf"
| "js_add (Fin a) NaN = NaN"
| "js_add PInf (Fin b) = PInf"
| "js_add PInf PInf = PInf"
| "js_add PInf NInf = NaN"
| "js_add PInf NaN = NaN"
| "js_add NInf (Fin b) = NInf"
| "js_add NInf PInf = NaN"
| "js_add NInf NInf = NInf"
| "js_add NInf NaN = NaN"
| "js_add NaN b = NaN"

definition js_sub :: "jsnum \<Rightarrow> jsnum \<Rightarrow> jsnum" where
  "js_sub a b = js_add a (js_neg b)"

definition inf_signed :: "real \<Rightarrow> jsnum" where
  \<comment> \<open>an infinity multiplied by a finite factor\<close>
  "inf_signed a = (if a = 0 then NaN else if 0 < a then PInf else NInf)"

fun js_mul :: "jsnum \<Rightarrow> jsnum \<Rightarrow> jsnum" where
  "js_mul (Fin a) (Fin b) = Fin (a * b)"
| "js_mul (Fin a) PInf = inf_signed a"
| "js_mul (Fin a) NInf = inf_signed (- a)"
| "js_mul (Fin a) NaN = NaN"
| "js_mul PInf (Fin b) = inf_signed b"
| "js_mul PInf PInf = PInf"
| "js_mul PInf NInf = NInf"
| "js_mul PInf NaN = NaN"
| "js_mul NInf (Fin b) = inf_signed (- b)"
| "js_mul NInf PInf = NInf"
| "js_mul NInf NInf = PInf"
| "js_mul NInf NaN = NaN"
| "js_mul NaN b = NaN"

fun js_div :: "jsnum \<Rightarrow> jsnum \<Rightarrow> jsnum" where
  "js_div (Fin a) (Fin b) = (if b = 0 then inf_signed a else Fin (a / b))"
| "js_div (Fin a) PInf = Fin 0"
| "js_div (Fin a) NInf = Fin 0"
| "js_div (Fin a) NaN = NaN"
| "js_div PInf (Fin b) = (if 0 \<le> b then PInf else NInf)"
| "js_div NInf (Fin b) = (if 0 \<le> b then NInf else PInf)"
| "js_div PInf b = NaN"
| "js_div NInf b = NaN"
| "js_div NaN b = NaN"

fun js_lt :: "jsnum \<Rightarrow> jsnum \<Rightarrow> bool" where
  "js_lt (Fin a) (Fin b) = (a < b)"
| "js_lt (Fin a) PInf = True"
| "js_lt NInf (Fin b) = True"
| "js_lt NInf PInf = True"
| "js_lt a b = False"

fun js_le :: "jsnum \<Rightarrow> jsnum \<Rightarrow> bool" where
  "js_le (Fin a) (Fin b) = (a \<le> b)"
| "js_le (Fin a) PInf = True"
| "js_le NInf (Fin b) = True"
| "js_le NInf PInf = True"
| "js_le NInf NInf = True"
| "js_le PInf PInf = True"
| "js_le a b = False"

definition js_gt :: "jsnum \<Rightarrow> jsnum \<Rightarrow> bool" where
  "js_gt a b = js_lt b a"

definition js_ge :: "jsnum \<Rightarrow> jsnum \<Rightarrow> bool" where
  "js_ge a b = js_le b a"

definition is_NaN :: "jsnum \<Rightarrow> bool" where
  "is_NaN a = (case a of NaN \<Rightarrow> True | _ \<Rightarrow> False)"

definition js_max :: "jsnum \<Rightarrow> jsnum \<Rightarrow> jsnum" where
  \<comment> \<open>Math.max of two arguments\<close>
  "js_max a b = (if is_NaN a \<or> is_NaN b then NaN else if js_lt a b then b else a)"

definition js_min :: "jsnum \<Rightarrow> jsnum \<Rightarrow> jsnum" where
  \<comment> \<open>Math.min of two arguments\<close>
  "js_min a b = (if is_NaN a \<or> is_NaN b then NaN else if js_lt b a then b else a)"

fun js_log :: "jsnum \<Rightarrow> jsnum" where
  \<comment> \<open>Math.log\<close>
  "js_log (Fin a) = (if 0 < a then Fin (ln a) else if a = 0 then NInf else NaN)"
| "js_log PInf = PInf"
| "js_log NInf = NaN"
| "js_log NaN = NaN"

fun js_round :: "jsnum \<Rightarrow> jsnum" where
  \<comment> \<open>Math.round: to the nearest integer, halves upwards\<close>
  "js_round (Fin a) = Fin (of_int \<lfloor>a + 1 / 2\<rfloor>)"
| "js_round a = a"

definition wrap_int32 :: "int \<Rightarrow> int" where
  "wrap_int32 i = (let m = i mod 2 ^ 32 in if 2 ^ 31 \<le> m then m - 2 ^ 32 else m)"

fun to_int32 :: "jsnum \<Rightarrow> int" where
  \<comment> \<open>the conversion behind \<open>x | 0\<close>: truncate towards zero, wrap to 32 bits\<close>
  "to_int32 (Fin a) = wrap_int32 (if 0 \<le> a then \<lfloor>a\<rfloor> else \<lceil>a\<rceil>)"
| "to_int32 a = 0"

definition LOG10E :: real where
  \<comment> \<open>Math.LOG10E\<close>
  "LOG10E = 1 / ln 10"

definition LN2 :: real where
  \<comment> \<open>Math.LN2\<close>
  "LN2 = ln 2"

datatype js_error = TypeError | RangeError

subsection \<open>Papers (src/script.js, DarkroomSimulator.papers)\<close>

record tone =
  tone_r :: real
  tone_g :: real
  tone_b :: real

record colorTone =
  highlights :: tone
  midtones :: tone
  shadows :: tone

record gradeParam =
  gp_k :: real
  gp_speedShiftStops :: real

record paper =
  paper_baseExposure :: real
  paper_Dmin :: real
  paper_Dmax :: real
  paper_gradeParams :: "gradeParam list"
  paper_colorTone :: colorTone

definition gp :: "real \<Rightarrow> real \<Rightarrow> gradeParam" where
  "gp kk s = \<lparr>gp_k = kk, gp_speedShiftStops = s\<rparr>"

definition rgb :: "real \<Rightarrow> real \<Rightarrow> real \<Rightarrow> tone" where
  "rgb rr gg bb = \<lparr>tone_r = rr, tone_g = gg, tone_b = bb\<rparr>"

definition ilford_multigrade :: paper where
  "ilford_multigrade =
     \<lparr>paper_baseExposure = 16, paper_Dmin = 6 / 100, paper_Dmax = 205 / 100,
      paper_gradeParams =
        [gp (22 / 10) 0, gp (25 / 10) 0, gp (29 / 10) 0, gp (33 / 10) 0,
         gp (37 / 10) 0, gp (42 / 10) 0, gp (48 / 10) 0, gp (55 / 10) 0,
         gp (63 / 10) (2 / 10), gp (73 / 10) (4 / 10), gp (85 / 10) (6 / 10),
         gp 10 (8 / 10)],
      paper_colorTone =
        \<lparr>highlights = rgb (97 / 100) (99 / 100) 1,
         midtones = rgb (96 / 100) (98 / 100) 1,
         shadows = rgb (94 / 100) (97 / 100) 1\<rparr>\<rparr>"

definition gradeParams_at :: "gradeParam list \<Rightarrow> int \<Rightarrow> js_error + gradeParam" where
  \<comment> \<open>\<open>paper.gradeParams[grade]\<close> followed by a field read: a missing entry is
      \<open>undefined\<close>, and reading \<open>.k\<close> from it throws\<close>
  "gradeParams_at gps g =
     (if 0 \<le> g \<and> nat g < length gps then Inr (gps ! nat g) else Inl TypeError)"

subsection \<open>Sigmoid lookup table (src/script.js, init and the closure in processImage)\<close>

record sigmoidLUT =
  lut_values :: "real list"
  lut_lo :: real
  lut_hi :: real
  lut_step :: real

definition makeSigmoidLUT :: "nat \<Rightarrow> sigmoidLUT" where
  \<comment> \<open>N = 2048 in src/script.js, N = 4096 in the GPU version\<close>
  "makeSigmoidLUT N =
     (let lo = - 12; hi = 12; step = (hi - lo) / (real N - 1)
      in \<lparr>lut_values = map (\<lambda>i. 1 / (1 + exp (- (lo + real i * step)))) [0..<N],
          lut_lo = lo, lut_hi = hi, lut_step = step\<rparr>)"

definition typed_at :: "real list \<Rightarrow> int \<Rightarrow> jsnum" where
  \<comment> \<open>a Float32Array read; outside the array the value is \<open>undefined\<close>\<close>
  "typed_at xs i = (if 0 \<le> i \<and> nat i < length xs then Fin (xs ! nat i) else NaN)"

definition sigmoid :: "sigmoidLUT \<Rightarrow> jsnum \<Rightarrow> jsnum" where
  "sigmoid L x =
     (if js_le x (Fin (lut_lo L)) then Fin 0
      else if js_ge x (Fin (lut_hi L)) then Fin 1
      else typed_at (lut_values L)
             (to_int32 (js_div (js_sub x (Fin (lut_lo L))) (Fin (lut_step L)))))"

subsection \<open>CPU compositor (src/script.js, convertToNegative and processImage)\<close>

definition EPS :: real where
  "EPS = 1 / 1000000"

definition logTrans_of_rgb :: "8 word \<Rightarrow> 8 word \<Rightarrow> 8 word \<Rightarrow> real" where
  \<comment> \<open>one entry of \<open>this.logTrans\<close>, from a pixel of the uploaded image\<close>
  "logTrans_of_rgb rr gg bb =
     (let gray = 299 / 1000 * real (unat rr) + 587 / 1000 * real (unat gg)
                 + 114 / 1000 * real (unat bb);
          inverted = 255 - gray;
          t = inverted * (1 / 255);
          safeT = (if t > EPS then t else EPS)
      in ln safeT * LOG10E)"

record cpu_exposure =
  cexp_time :: jsnum
  cexp_grade :: int
  cexp_mask :: "real list option"

record pre =
  pre_k :: real
  pre_E0 :: jsnum
  pre_logTime :: jsnum
  pre_mask :: "real list option"

definition precompute1 :: "paper \<Rightarrow> cpu_exposure \<Rightarrow> js_error + pre" where
  "precompute1 pap ex =
     (let log10BaseE = js_mul (js_log (Fin (paper_baseExposure pap))) (Fin LOG10E);
          log10Two = LOG10E * LN2
      in case gradeParams_at (paper_gradeParams pap) (cexp_grade ex) of
           Inl e \<Rightarrow> Inl e
         | Inr p \<Rightarrow>
             Inr \<lparr>pre_k = gp_k p,
                  pre_E0 = js_add log10BaseE (Fin (gp_speedShiftStops p * log10Two)),
                  pre_logTime = js_mul (js_log (cexp_time ex)) (Fin LOG10E),
                  pre_mask = cexp_mask ex\<rparr>)"

fun precompute :: "paper \<Rightarrow> cpu_exposure list \<Rightarrow> js_error + pre list" where
  "precompute pap [] = Inr []"
| "precompute pap (ex # exs) =
     (case precompute1 pap ex of
        Inl e \<Rightarrow> Inl e
      | Inr p \<Rightarrow> (case precompute pap exs of Inl e \<Rightarrow> Inl e | Inr ps \<Rightarrow> Inr (p # ps)))"

definition mask_value :: "real list option \<Rightarrow> nat \<Rightarrow> jsnum" where
  \<comment> \<open>\<open>ex.mask ? ex.mask[j] : 0\<close>\<close>
  "mask_value mk j = (case mk of None \<Rightarrow> Fin 0 | Some ms \<Rightarrow> typed_at ms (int j))"

definition logMask_of :: "jsnum \<Rightarrow> jsnum" where
  "logMask_of m =
     (let safeMaskMul = (if js_gt m (Fin 0) then js_max (Fin EPS) (js_sub (Fin 1) m) else Fin 1)
      in if safeMaskMul = Fin 1 then Fin 0 else js_mul (js_log safeMaskMul) (Fin LOG10E))"

definition Dexcess_of :: "real \<Rightarrow> real \<Rightarrow> sigmoidLUT \<Rightarrow> jsnum \<Rightarrow> nat \<Rightarrow> pre \<Rightarrow> jsnum" where
  \<comment> \<open>the body of the exposure loop up to \<open>Dexcess\<close>, for pixel j\<close>
  "Dexcess_of Dmin spanD L logT j ex =
     (let m = mask_value (pre_mask ex) j;
          logMask = logMask_of m;
          logE = js_add (js_add (pre_logTime ex) logT) logMask;
          x = js_mul (Fin (pre_k ex)) (js_sub logE (pre_E0 ex));
          sig = sigmoid L x;
          Dpix = js_add (Fin Dmin) (js_mul (Fin spanD) sig)
      in js_sub Dpix (Fin Dmin))"

fun accumulate :: "real \<Rightarrow> real \<Rightarrow> sigmoidLUT \<Rightarrow> jsnum \<Rightarrow> nat \<Rightarrow> pre list \<Rightarrow> jsnum \<Rightarrow> jsnum" where
  \<comment> \<open>the loop \<open>for (e = 0; e < pre.length; e++)\<close>; a \<open>break\<close> returns at once\<close>
  "accumulate Dmin spanD L logT j [] Dsum = Dsum"
| "accumulate Dmin spanD L logT j (ex # rest) Dsum =
     (let Dexcess = Dexcess_of Dmin spanD L logT j ex
      in if js_gt Dexcess (Fin 0) then
           (let Dsum' = js_add Dsum Dexcess
            in if js_ge Dsum' (Fin spanD) then Fin spanD
               else accumulate Dmin spanD L logT j rest Dsum')
         else accumulate Dmin spanD L logT j rest Dsum)"

definition Dsum_pixel :: "paper \<Rightarrow> sigmoidLUT \<Rightarrow> real list \<Rightarrow> pre list \<Rightarrow> nat \<Rightarrow> jsnum" where
  "Dsum_pixel pap L logTrans ps j =
     (let Dmin = paper_Dmin pap; Dmax = paper_Dmax pap; spanD = Dmax - Dmin;
          logT = typed_at logTrans (int j)
      in accumulate Dmin spanD L logT j ps (Fin 0))"

definition Dfinal_pixel :: "paper \<Rightarrow> sigmoidLUT \<Rightarrow> real list \<Rightarrow> pre list \<Rightarrow> nat \<Rightarrow> jsnum" where
  "Dfinal_pixel pap L logTrans ps j =
     (let Dmin = paper_Dmin pap; Dmax = paper_Dmax pap; spanD = Dmax - Dmin;
          Dsum = Dsum_pixel pap L logTrans ps j
      in if js_ge Dsum (Fin spanD) then Fin Dmax else js_add (Fin Dmin) Dsum)"

definition clamp_u8 :: "int \<Rightarrow> 8 word" where
  \<comment> \<open>a store into a Uint8ClampedArray\<close>
  "clamp_u8 i = (if i < 0 then 0 else if 255 < i then 255 else word_of_int i)"

definition color_of_Dfinal :: "paper \<Rightarrow> jsnum \<Rightarrow> 8 word list" where
  \<comment> \<open>the four bytes written for one pixel\<close>
  "color_of_Dfinal pap Dfinal =
     (let Dmin = paper_Dmin pap; Dmax = paper_Dmax pap; spanD = Dmax - Dmin;
          frac = js_max (Fin 0) (js_min (Fin 1) (js_div (js_sub Dfinal (Fin Dmin)) (Fin spanD)));
          valueUnclamped = js_round (js_mul (Fin 255) (js_sub (Fin 1) frac));
          value = js_max (Fin 0) (js_min (Fin 255) valueUnclamped);
          tn = (if js_gt value (Fin 192) then highlights (paper_colorTone pap)
                else if js_gt value (Fin 64) then midtones (paper_colorTone pap)
                else shadows (paper_colorTone pap))
      in [clamp_u8 (to_int32 (js_mul value (Fin (tone_r tn)))),
          clamp_u8 (to_int32 (js_mul value (Fin (tone_g tn)))),
          clamp_u8 (to_int32 (js_mul value (Fin (tone_b tn)))),
          255])"

definition renderPixel :: "paper \<Rightarrow> sigmoidLUT \<Rightarrow> real list \<Rightarrow> pre list \<Rightarrow> nat \<Rightarrow> 8 word list" where
  "renderPixel pap L logTrans ps j = color_of_Dfinal pap (Dfinal_pixel pap L logTrans ps j)"

record cpu_state =
  st_negativeImage :: "(int \<times> int) option"
  st_paper :: paper
  st_exposures :: "cpu_exposure list"
  st_logTrans :: "real list"
  st_sigmoidLUT :: sigmoidLUT

definition processImage :: "cpu_state \<Rightarrow> js_error + (8 word list) option" where
  \<comment> \<open>the rendered RGBA buffer; None where the function returns before rendering\<close>
  "processImage st =
     (case st_negativeImage st of
        None \<Rightarrow> Inr None
      | Some (W, H) \<Rightarrow>
          if st_exposures st = [] then Inr None
          else if W \<le> 0 \<or> H \<le> 0 then Inr None
          else (case precompute (st_paper st) (st_exposures st) of
                  Inl e \<Rightarrow> Inl e
                | Inr ps \<Rightarrow>
                    Inr (Some (concat (map (renderPixel (st_paper st) (st_sigmoidLUT st)
                                             (st_logTrans st) ps)
                                        [0..<nat (W * H)])))))"

subsection \<open>GPU compositor (GPUEngine: uploadLUT, uploadMasks, render, fragment shader)\<close>

record imageData =
  img_width :: nat
  img_height :: nat
  img_data :: "8 word list"

record 't exposure =
  exp_id :: string
  exp_time :: 't
  exp_grade :: int
  exp_maskData :: "imageData option"

definition maxExposures :: nat where
  "maxExposures = 12"

record uniforms =
  uDmin :: real
  uDmax :: real
  uHi :: tone
  uMid :: tone
  uSh :: tone
  uExposureCount :: nat
  uLogT :: "jsnum list"
  uK :: "real list"
  uE0 :: "jsnum list"
  uHasMask :: "int list"

record lut_texture =
  tex_bytes :: "8 word list"
  uLUTLo :: real
  uLUTStep :: real
  uLUTLenMinus1 :: real

definition js_log10 :: "jsnum \<Rightarrow> jsnum" where
  \<comment> \<open>Math.log10\<close>
  "js_log10 a = js_div (js_log a) (Fin (ln 10))"

definition round_u8 :: "real \<Rightarrow> 8 word" where
  \<comment> \<open>\<open>bytes[i] = Math.round(v)\<close> into a Uint8Array: the integer modulo 256\<close>
  "round_u8 v = word_of_int \<lfloor>v + 1 / 2\<rfloor>"

definition uploadLUT :: "sigmoidLUT \<Rightarrow> lut_texture" where
  "uploadLUT L =
     \<lparr>tex_bytes = map (\<lambda>v. round_u8 (v * 255)) (lut_values L),
      uLUTLo = lut_lo L, uLUTStep = lut_step L,
      uLUTLenMinus1 = real (length (lut_values L)) - 1\<rparr>"

definition pad_to :: "nat \<Rightarrow> 'a \<Rightarrow> 'a list \<Rightarrow> 'a list" where
  \<comment> \<open>a typed array of fixed length, zero-filled, with its first entries assigned\<close>
  "pad_to n z xs = take n xs @ replicate (n - length xs) z"

definition exposure_uniforms :: "paper \<Rightarrow> jsnum exposure \<Rightarrow> js_error + (jsnum \<times> real \<times> jsnum \<times> int)" where
  \<comment> \<open>one iteration of the loop in render: (logT[i], kArr[i], e0Arr[i], hasMask[i])\<close>
  "exposure_uniforms pap ex =
     (case gradeParams_at (paper_gradeParams pap) (exp_grade ex) of
        Inl e \<Rightarrow> Inl e
      | Inr p \<Rightarrow>
          Inr (js_log10 (js_max (Fin (1 / 1000000)) (exp_time ex)),
               gp_k p,
               js_log10 (Fin (paper_baseExposure pap * 2 powr gp_speedShiftStops p)),
               (case exp_maskData ex of None \<Rightarrow> 0 | Some _ \<Rightarrow> 1)))"

fun all_uniforms :: "paper \<Rightarrow> jsnum exposure list \<Rightarrow> js_error + (jsnum \<times> real \<times> jsnum \<times> int) list" where
  "all_uniforms pap [] = Inr []"
| "all_uniforms pap (ex # exs) =
     (case exposure_uniforms pap ex of
        Inl e \<Rightarrow> Inl e
      | Inr u \<Rightarrow> (case all_uniforms pap exs of Inl e \<Rightarrow> Inl e | Inr us \<Rightarrow> Inr (u # us)))"

definition render_uniforms :: "paper \<Rightarrow> jsnum exposure list \<Rightarrow> js_error + uniforms" where
  "render_uniforms pap exposures =
     (let n = min (length exposures) maxExposures
      in case all_uniforms pap (take n exposures) of
           Inl e \<Rightarrow> Inl e
         | Inr us \<Rightarrow>
             Inr \<lparr>uDmin = paper_Dmin pap, uDmax = paper_Dmax pap,
                  uHi = highlights (paper_colorTone pap),
                  uMid = midtones (paper_colorTone pap),
                  uSh = shadows (paper_colorTone pap),
                  uExposureCount = n,
                  uLogT = pad_to maxExposures (Fin 0) (map (\<lambda>(lt, kk, e0, hm). lt) us),
                  uK = pad_to maxExposures 0 (map (\<lambda>(lt, kk, e0, hm). kk) us),
                  uE0 = pad_to maxExposures (Fin 0) (map (\<lambda>(lt, kk, e0, hm). e0) us),
                  uHasMask = pad_to maxExposures 0 (map (\<lambda>(lt, kk, e0, hm). hm) us)\<rparr>)"

definition uploadMask1 :: "'t exposure \<Rightarrow> js_error + imageData option" where
  \<comment> \<open>the texture bound for one exposure: its mask, or None for a texture cleared to zero;
      \<open>tempImgData.data.set\<close> throws when the source is longer than the target\<close>
  "uploadMask1 ex =
     (case exp_maskData ex of
        None \<Rightarrow> Inr None
      | Some md \<Rightarrow>
          if img_data md \<noteq> [] \<and> img_width md \<noteq> 0 \<and> img_height md \<noteq> 0 then
            (if 4 * img_width md * img_height md < length (img_data md) then Inl RangeError
             else Inr (Some md))
          else Inr None)"

fun uploadMasksList :: "'t exposure list \<Rightarrow> js_error + imageData option list" where
  "uploadMasksList [] = Inr []"
| "uploadMasksList (ex # exs) =
     (case uploadMask1 ex of
        Inl e \<Rightarrow> Inl e
      | Inr t \<Rightarrow> (case uploadMasksList exs of Inl e \<Rightarrow> Inl e | Inr ts \<Rightarrow> Inr (t # ts)))"

definition uploadMasks :: "'t exposure list \<Rightarrow> js_error + imageData option list" where
  "uploadMasks exposures = uploadMasksList (take (min (length exposures) maxExposures) exposures)"

definition byte_at :: "8 word list \<Rightarrow> nat \<Rightarrow> real" where
  \<comment> \<open>a normalised texel; storage never written reads as zero\<close>
  "byte_at bs i = (if i < length bs then real (unat (bs ! i)) / 255 else 0)"

definition mask_alpha :: "imageData option \<Rightarrow> nat \<times> nat \<Rightarrow> nat \<times> nat \<Rightarrow> real" where
  \<comment> \<open>\<open>texture(uMasks[e], vUV).a\<close> with NEAREST filtering, for the fragment at
      (col, row) of a w x h viewport\<close>
  "mask_alpha t sz px =
     (case t of
        None \<Rightarrow> 0
      | Some md \<Rightarrow>
          (let (w, h) = sz; (col, row) = px;
               tx = nat \<lfloor>(real col + 1 / 2) / real w * real (img_width md)\<rfloor>;
               ty = nat \<lfloor>(real row + 1 / 2) / real h * real (img_height md)\<rfloor>
           in byte_at (img_data md) (4 * (ty * img_width md + tx) + 3)))"

definition glsl_log10 :: "real \<Rightarrow> real" where
  "glsl_log10 x = ln x / (2302585092994046 / 1000000000000000)"

definition clamp_index :: "int \<Rightarrow> nat \<Rightarrow> nat" where
  \<comment> \<open>CLAMP_TO_EDGE on a texel index\<close>
  "clamp_index i n = (if i < 0 then 0 else if int n \<le> i then n - 1 else nat i)"

definition texture_linear :: "8 word list \<Rightarrow> real \<Rightarrow> real" where
  \<comment> \<open>a LINEAR-filtered read of a one-row R8 texture at horizontal coordinate u\<close>
  "texture_linear bs u =
     (let n = length bs; c = u * real n - 1 / 2; i0 = \<lfloor>c\<rfloor>; f = c - of_int i0
      in (1 - f) * byte_at bs (clamp_index i0 n) + f * byte_at bs (clamp_index (i0 + 1) n))"

definition fetchSigmoid :: "lut_texture \<Rightarrow> real \<Rightarrow> real" where
  "fetchSigmoid T x =
     (let idx = (x - uLUTLo T) / uLUTStep T;
          idx = min (max idx 0) (uLUTLenMinus1 T);
          u = (idx + 1 / 2) / (uLUTLenMinus1 T + 1)
      in texture_linear (tex_bytes T) u)"

definition exposure_extra :: "uniforms \<Rightarrow> lut_texture \<Rightarrow> real \<Rightarrow> real list \<Rightarrow> nat \<Rightarrow> real option" where
  \<comment> \<open>the body of the shader loop for exposure e: \<open>max(0.0, extra)\<close>. GLSL leaves
      arithmetic on NaN and infinities unspecified: None for such a uniform.\<close>
  "exposure_extra U T logTrans alphas e =
     (case (uLogT U ! e, uE0 U ! e) of
        (Fin lt, Fin e0) \<Rightarrow>
          (let maskMul = (if uHasMask U ! e = 1 then 1 - alphas ! e else 1);
               logE = lt + logTrans;
               logE = (if maskMul < 1 then logE + glsl_log10 (max (1 / 1000000) maskMul) else logE);
               x = uK U ! e * (logE - e0);
               s = fetchSigmoid T x;
               span = uDmax U - uDmin U;
               density = uDmin U + span * s;
               extra = density - uDmin U
           in Some (max 0 extra))
      | _ \<Rightarrow> None)"

fun shader_loop :: "uniforms \<Rightarrow> lut_texture \<Rightarrow> real \<Rightarrow> real list \<Rightarrow> nat list \<Rightarrow> real \<Rightarrow> real option" where
  \<comment> \<open>\<open>for (int e = 0; e < uExposureCount; ++e)\<close> over the indices still to run\<close>
  "shader_loop U T logTrans alphas [] totalDensity = Some totalDensity"
| "shader_loop U T logTrans alphas (e # es) totalDensity =
     (case exposure_extra U T logTrans alphas e of
        None \<Rightarrow> None
      | Some ex \<Rightarrow> shader_loop U T logTrans alphas es (totalDensity + ex))"

definition shader_density :: "uniforms \<Rightarrow> lut_texture \<Rightarrow> real \<Rightarrow> real list \<Rightarrow> real option" where
  \<comment> \<open>\<open>totalDensity\<close> after \<open>min(totalDensity, uDmax)\<close>\<close>
  "shader_density U T transmittance alphas =
     (let logTrans = glsl_log10 (max (1 / 1000000) transmittance)
      in case shader_loop U T logTrans alphas [0..<uExposureCount U] (uDmin U) of
           None \<Rightarrow> None
         | Some totalDensity \<Rightarrow> Some (min totalDensity (uDmax U)))"

definition tone_mix :: "tone \<Rightarrow> tone \<Rightarrow> real \<Rightarrow> real \<Rightarrow> tone" where
  \<comment> \<open>\<open>(a * (1.0 - t) + b * t) * reflectance\<close>, componentwise\<close>
  "tone_mix a b t reflectance =
     rgb ((tone_r a * (1 - t) + tone_r b * t) * reflectance)
         ((tone_g a * (1 - t) + tone_g b * t) * reflectance)
         ((tone_b a * (1 - t) + tone_b b * t) * reflectance)"

definition shader_color :: "uniforms \<Rightarrow> real \<Rightarrow> tone" where
  "shader_color U totalDensity =
     (let reflectance = exp (- totalDensity * (2302585092994046 / 1000000000000000))
      in if reflectance < 1 / 2 then tone_mix (uSh U) (uMid U) (reflectance * 2) reflectance
         else tone_mix (uMid U) (uHi U) ((reflectance - 1 / 2) * 2) reflectance)"

definition unorm8 :: "real \<Rightarrow> 8 word" where
  \<comment> \<open>a colour component written to the RGBA8 drawing buffer\<close>
  "unorm8 c = word_of_int \<lfloor>min 1 (max 0 c) * 255 + 1 / 2\<rfloor>"

record gpu_engine =
  gpu_size :: "nat \<times> nat"
  gpu_trans :: "8 word list"
  gpu_lut :: lut_texture
  gpu_masks :: nat

text \<open>
  \<open>gpu_masks\<close> is \<open>this.textures.masks.length\<close>. render binds the table to texture unit 1
  and leaves that unit active; uploadMasks then creates the mask textures that are still
  missing with \<open>_createTex\<close>, which binds the new texture on the active unit and ends with
  \<open>bindTexture(TEXTURE_2D, null)\<close>. So on a render that has to create mask textures (the
  first one of an engine) unit 1 is left without a texture at the draw call, and a sampler
  without a texture reads 0; afterwards the twelve slots exist and the table stays bound.
\<close>

definition lut_unit :: "gpu_engine \<Rightarrow> lut_texture" where
  \<comment> \<open>what \<open>uSigmoidLUT\<close> samples at the draw call of render\<close>
  "lut_unit eng =
     (if gpu_masks eng < maxExposures then (gpu_lut eng)\<lparr>tex_bytes := []\<rparr> else gpu_lut eng)"

definition rendered :: "gpu_engine \<Rightarrow> gpu_engine" where
  \<comment> \<open>the engine after a render: the mask slots exist\<close>
  "rendered eng = eng\<lparr>gpu_masks := max (gpu_masks eng) maxExposures\<rparr>"

definition gpu_density :: "gpu_engine \<Rightarrow> paper \<Rightarrow> jsnum exposure list \<Rightarrow> nat \<times> nat \<Rightarrow> js_error + real option" where
  \<comment> \<open>render, then the density the shader reaches at the fragment (col, row)\<close>
  "gpu_density eng pap exposures px =
     (case render_uniforms pap exposures of
        Inl e \<Rightarrow> Inl e
      | Inr U \<Rightarrow>
          (case uploadMasks exposures of
             Inl e \<Rightarrow> Inl e
           | Inr ts \<Rightarrow>
               Inr (shader_density U (lut_unit eng)
                      (byte_at (gpu_trans eng) (snd px * fst (gpu_size eng) + fst px))
                      (pad_to maxExposures 0 (map (\<lambda>t. mask_alpha t (gpu_size eng) px) ts)))))"

definition gpu_pixel :: "gpu_engine \<Rightarrow> paper \<Rightarrow> jsnum exposure list \<Rightarrow> nat \<times> nat \<Rightarrow> js_error + (8 word list) option" where
  \<comment> \<open>the RGBA bytes of the fragment (col, row) after render\<close>
  "gpu_pixel eng pap exposures px =
     (case gpu_density eng pap exposures px of
        Inl e \<Rightarrow> Inl e
      | Inr None \<Rightarrow> Inr None
      | Inr (Some d) \<Rightarrow>
          (case render_uniforms pap exposures of
             Inl e \<Rightarrow> Inl e
           | Inr U \<Rightarrow>
               (let c = shader_color U d
                in Inr (Some [unorm8 (tone_r c), unorm8 (tone_g c), unorm8 (tone_b c), 255]))))"

subsection \<open>Auxiliary notions for the statements\<close>

definition contrib :: "real \<Rightarrow> real \<Rightarrow> sigmoidLUT \<Rightarrow> jsnum \<Rightarrow> nat \<Rightarrow> pre \<Rightarrow> real" where
  "contrib Dmin spanD L logT j ex =
     (case Dexcess_of Dmin spanD L logT j ex of Fin d \<Rightarrow> max 0 d | _ \<Rightarrow> 0)"

definition valid_grade :: "paper \<Rightarrow> int \<Rightarrow> bool" where
  "valid_grade pap g = (0 \<le> g \<and> nat g < length (paper_gradeParams pap))"

definition finite_time :: "jsnum \<Rightarrow> bool" where
  "finite_time t = (case t of Fin _ \<Rightarrow> True | _ \<Rightarrow> False)"

definition mask_ok :: "'t exposure \<Rightarrow> bool" where
  "mask_ok ex = (case exp_maskData ex of None \<Rightarrow> True
                 | Some md \<Rightarrow> length (img_data md) \<le> 4 * img_width md * img_height md)"

definition gpu_renderable :: "paper \<Rightarrow> jsnum exposure list \<Rightarrow> bool" where
  "gpu_renderable pap exposures =
     (0 < paper_baseExposure pap \<and>
      (\<forall>ex \<in> set (take maxExposures exposures).
         finite_time (exp_time ex) \<and> valid_grade pap (exp_grade ex) \<and> mask_ok ex))"

definition extra_of :: "uniforms \<Rightarrow> lut_texture \<Rightarrow> real \<Rightarrow> real list \<Rightarrow> nat \<Rightarrow> real" where
  "extra_of U T logTrans alphas e =
     (case exposure_extra U T logTrans alphas e of Some v \<Rightarrow> v | None \<Rightarrow> 0)"

definition example_lut :: sigmoidLUT where
  "example_lut = \<lparr>lut_values = [150 / 199], lut_lo = - 12, lut_hi = 12, lut_step = 24\<rparr>"

definition example_pre :: pre where
  "example_pre = \<lparr>pre_k = 1, pre_E0 = Fin 0, pre_logTime = Fin 0, pre_mask = None\<rparr>"

definition example_exposure :: "jsnum exposure" where
  "example_exposure = \<lparr>exp_id = ''1'', exp_time = Fin 16, exp_grade = 5, exp_maskData = None\<rparr>"

definition example_engine :: gpu_engine where
  "example_engine = \<lparr>gpu_size = (1, 1), gpu_trans = [255], gpu_lut = uploadLUT example_lut,
                      gpu_masks = 12\<rparr>"

definition dark_cexp :: cpu_exposure where
  "dark_cexp = \<lparr>cexp_time = Fin (1 / 1000000), cexp_grade = 0, cexp_mask = None\<rparr>"

definition bright_cexp :: cpu_exposure where
  "bright_cexp = \<lparr>cexp_time = Fin 100000000, cexp_grade = 0, cexp_mask = None\<rparr>"

definition dark_pre :: pre where
  "dark_pre = \<lparr>pre_k = 22 / 10, pre_E0 = Fin (ln 16 / ln 10), pre_logTime = Fin (- 6), pre_mask = None\<rparr>"

definition bright_pre :: pre where
  "bright_pre = \<lparr>pre_k = 22 / 10, pre_E0 = Fin (ln 16 / ln 10), pre_logTime = Fin 8, pre_mask = None\<rparr>"

definition single_extra :: "gpu_engine \<Rightarrow> paper \<Rightarrow> nat \<times> nat \<Rightarrow> jsnum exposure \<Rightarrow> real" where
  \<comment> \<open>what the shader adds at a fragment for one exposure: the loop body run on the
      uniforms and the mask texture of that exposure alone\<close>
  "single_extra eng pap px ex =
     (case (exposure_uniforms pap ex, uploadMask1 ex) of
        (Inr (lt, kk, e0, hm), Inr t) \<Rightarrow>
          extra_of \<lparr>uDmin = paper_Dmin pap, uDmax = paper_Dmax pap,
                    uHi = highlights (paper_colorTone pap),
                    uMid = midtones (paper_colorTone pap),
                    uSh = shadows (paper_colorTone pap),
                    uExposureCount = 1, uLogT = [lt], uK = [kk], uE0 = [e0], uHasMask = [hm]\<rparr>
            (lut_unit eng)
            (glsl_log10 (max (1 / 1000000)
               (byte_at (gpu_trans eng) (snd px * fst (gpu_size eng) + fst px))))
            [mask_alpha t (gpu_size eng) px] 0
      | _ \<Rightarrow> 0)"

definition dark_exposure :: "jsnum exposure" where
  "dark_exposure = \<lparr>exp_id = ''dark'', exp_time = Fin (1 / 1000000), exp_grade = 0,
                     exp_maskData = None\<rparr>"

definition bright_exposure :: "jsnum exposure" where
  "bright_exposure = \<lparr>exp_id = ''bright'', exp_time = Fin 100000000, exp_grade = 0,
                       exp_maskData = None\<rparr>"

definition white_engine :: gpu_engine where
  \<comment> \<open>a one-pixel negative of full transmittance, with the table of makeSigmoidLUT, after
      an earlier render\<close>
  "white_engine = \<lparr>gpu_size = (1, 1), gpu_trans = [255],
                    gpu_lut = uploadLUT (makeSigmoidLUT 4096), gpu_masks = 12\<rparr>"

definition render :: "paper \<Rightarrow> jsnum exposure list
    \<Rightarrow> js_error + (uniforms \<times> imageData option list \<times> jsnum exposure list)" where
  \<comment> \<open>GPUEngine.render up to the draw call: the uniforms, the mask textures bound, and the
      exposures array as the call leaves it (render only reads it)\<close>
  "render pap exposures =
     (case render_uniforms pap exposures of
        Inl e \<Rightarrow> Inl e
      | Inr U \<Rightarrow>
          (case uploadMasks exposures of
             Inl e \<Rightarrow> Inl e
           | Inr ts \<Rightarrow> Inr (U, ts, exposures)))"

definition white_state :: "cpu_exposure list \<Rightarrow> cpu_state" where
  \<comment> \<open>a one-pixel negative of full transmittance, with the table built by init\<close>
  "white_state exposures =
     \<lparr>st_negativeImage = Some (1, 1), st_paper = ilford_multigrade, st_exposures = exposures,
      st_logTrans = [logTrans_of_rgb 0 0 0], st_sigmoidLUT = makeSigmoidLUT 2048\<rparr>"

subsection \<open>Binary project files (parseBinaryProjectData, saveProjectData)\<close>

text \<open>
  An ArrayBuffer is a list of bytes. TextEncoder.encode and TextDecoder.decode belong to
  the platform: the parser and the serializer take them as parameters \<open>encode\<close> and
  \<open>decode\<close>. An exposure time is represented by the 64 bits of its float64 (NaN by the one
  bit pattern the platform writes for it); a grade is an integer-valued number.
\<close>

definition then_do :: "'e + 'a \<Rightarrow> ('a \<Rightarrow> 'e + 'b) \<Rightarrow> 'e + 'b" where
  \<comment> \<open>sequencing of steps that may throw\<close>
  "then_do m f = (case m of Inl e \<Rightarrow> Inl e | Inr x \<Rightarrow> f x)"

fun le_bytes :: "nat \<Rightarrow> nat \<Rightarrow> 8 word list" where
  \<comment> \<open>the k low bytes of n, least significant first\<close>
  "le_bytes 0 n = []"
| "le_bytes (Suc k) n = of_nat (n mod 256) # le_bytes k (n div 256)"

fun le_value :: "8 word list \<Rightarrow> nat" where
  "le_value [] = 0"
| "le_value (b # bs) = unat b + 256 * le_value bs"

definition slice :: "8 word list \<Rightarrow> nat \<Rightarrow> nat \<Rightarrow> js_error + 8 word list" where
  \<comment> \<open>\<open>new Uint8Array(buffer, offset, length)\<close>, and every DataView read of length bytes\<close>
  "slice buffer offset len =
     (if offset + len \<le> length buffer then Inr (take len (drop offset buffer)) else Inl RangeError)"

definition getUint8 :: "8 word list \<Rightarrow> nat \<Rightarrow> js_error + nat" where
  "getUint8 buffer offset = then_do (slice buffer offset 1) (\<lambda>bs. Inr (le_value bs))"

definition getUint32 :: "8 word list \<Rightarrow> nat \<Rightarrow> js_error + nat" where
  "getUint32 buffer offset = then_do (slice buffer offset 4) (\<lambda>bs. Inr (le_value bs))"

definition getInt32 :: "8 word list \<Rightarrow> nat \<Rightarrow> js_error + int" where
  "getInt32 buffer offset =
     then_do (slice buffer offset 4) (\<lambda>bs. Inr (wrap_int32 (int (le_value bs))))"

definition getFloat64 :: "8 word list \<Rightarrow> nat \<Rightarrow> js_error + 64 word" where
  "getFloat64 buffer offset = then_do (slice buffer offset 8) (\<lambda>bs. Inr (of_nat (le_value bs)))"

definition ascii_encode :: "string \<Rightarrow> 8 word list" where
  \<comment> \<open>TextEncoder.encode on ASCII strings: one byte per character\<close>
  "ascii_encode s = map (\<lambda>c. of_nat (of_char c)) s"

definition ascii_decode :: "8 word list \<Rightarrow> string" where
  \<comment> \<open>TextDecoder.decode on ASCII bytes\<close>
  "ascii_decode bs = map (\<lambda>b. char_of (unat b)) bs"

record 't project =
  proj_paperType :: string
  proj_exposures :: "'t exposure list"

definition parse_mask :: "8 word list \<Rightarrow> nat \<Rightarrow> js_error + (imageData option \<times> nat)" where
  \<comment> \<open>from the has-mask flag on; returns the mask and the offset after it\<close>
  "parse_mask buffer offset =
     then_do (getUint8 buffer offset) (\<lambda>flag.
       if flag = 1 then
         then_do (getUint32 buffer (offset + 1)) (\<lambda>width.
         then_do (getUint32 buffer (offset + 5)) (\<lambda>height.
         then_do (slice buffer (offset + 9) (width * height * 4)) (\<lambda>maskDataArray.
           Inr (Some \<lparr>img_width = width, img_height = height, img_data = maskDataArray\<rparr>,
                offset + 9 + width * height * 4))))
       else Inr (None, offset + 1))"

definition parse_exposure :: "(8 word list \<Rightarrow> string) \<Rightarrow> 8 word list \<Rightarrow> nat
    \<Rightarrow> js_error + ((64 word) exposure \<times> nat)" where
  \<comment> \<open>one iteration of the exposure loop\<close>
  "parse_exposure decode buffer offset =
     then_do (getUint32 buffer offset) (\<lambda>idLength.
     then_do (slice buffer (offset + 4) idLength) (\<lambda>idBytes.
     then_do (getFloat64 buffer (offset + 4 + idLength)) (\<lambda>time.
     then_do (getInt32 buffer (offset + 4 + idLength + 8)) (\<lambda>grade.
     then_do (parse_mask buffer (offset + 4 + idLength + 8 + 4)) (\<lambda>(maskData, offset').
       Inr (\<lparr>exp_id = decode idBytes, exp_time = time, exp_grade = grade,
             exp_maskData = maskData\<rparr>, offset'))))))"

fun parse_exposures :: "(8 word list \<Rightarrow> string) \<Rightarrow> 8 word list \<Rightarrow> nat \<Rightarrow> nat
    \<Rightarrow> js_error + (64 word) exposure list" where
  \<comment> \<open>\<open>for (let i = 0; i < exposureCount; i++)\<close>, by the number of iterations left\<close>
  "parse_exposures decode buffer offset 0 = Inr []"
| "parse_exposures decode buffer offset (Suc n) =
     then_do (parse_exposure decode buffer offset) (\<lambda>(ex, offset').
     then_do (parse_exposures decode buffer offset' n) (\<lambda>exs. Inr (ex # exs)))"

definition parse_body :: "(8 word list \<Rightarrow> string) \<Rightarrow> 8 word list
    \<Rightarrow> js_error + (64 word) project option" where
  \<comment> \<open>the body of the try block: Inl for an exception, Inr None for \<open>return null\<close>\<close>
  "parse_body decode buffer =
     then_do (getUint8 buffer 0) (\<lambda>m0. if m0 \<noteq> 68 then Inr None else
     then_do (getUint8 buffer 1) (\<lambda>m1. if m1 \<noteq> 68 then Inr None else
     then_do (getUint8 buffer 2) (\<lambda>m2. if m2 \<noteq> 82 then Inr None else
     then_do (getUint8 buffer 3) (\<lambda>m3. if m3 \<noteq> 77 then Inr None else
     then_do (getUint32 buffer 4) (\<lambda>version. if version \<noteq> 1 then Inr None else
     then_do (getUint32 buffer 8) (\<lambda>paperTypeLength.
     then_do (slice buffer 12 paperTypeLength) (\<lambda>paperTypeBytes.
     then_do (getUint32 buffer (12 + paperTypeLength)) (\<lambda>exposureCount.
     then_do (parse_exposures decode buffer (12 + paperTypeLength + 4) exposureCount) (\<lambda>exposures.
       Inr (Some \<lparr>proj_paperType = decode paperTypeBytes,
                  proj_exposures = exposures\<rparr>))))))))))"

definition parseBinaryProjectData :: "(8 word list \<Rightarrow> string) \<Rightarrow> 8 word list
    \<Rightarrow> (64 word) project option" where
  \<comment> \<open>the try/catch: every exception of the body becomes \<open>null\<close>\<close>
  "parseBinaryProjectData decode buffer =
     (case parse_body decode buffer of Inl e \<Rightarrow> None | Inr r \<Rightarrow> r)"

definition neg_zero :: "64 word" where
  \<comment> \<open>the float64 -0\<close>
  "neg_zero = 9223372036854775808"

definition parseFloat_number :: "64 word \<Rightarrow> 64 word" where
  \<comment> \<open>\<open>parseFloat(x)\<close> for a number x: x is printed and read back. Every number prints
      to a string that reads back as itself, except -0, which prints as "0"\<close>
  "parseFloat_number w = (if w = neg_zero then 0 else w)"

fun lead_digit :: "nat \<Rightarrow> nat" where
  \<comment> \<open>the first decimal digit\<close>
  "lead_digit n = (if n < 10 then n else lead_digit (n div 10))"

definition parseInt10 :: "int \<Rightarrow> int" where
  \<comment> \<open>\<open>parseInt(x, 10)\<close> for an integer-valued number x: below 10^21 in magnitude x prints
      as its decimal digits; from 10^21 on it prints in exponent notation ("1.5e+21") and
      parseInt reads the digit before the point\<close>
  "parseInt10 g = (if \<bar>g\<bar> < 10 ^ 21 then g else sgn g * int (lead_digit (nat \<bar>g\<bar>)))"

definition serialize_exposure :: "(string \<Rightarrow> 8 word list) \<Rightarrow> (64 word) exposure \<Rightarrow> 8 word list" where
  \<comment> \<open>the bytes written for one exposure by saveProjectData: \<open>setFloat64\<close> of
      \<open>parseFloat(exp.time)\<close>, \<open>setInt32\<close> of \<open>parseInt(exp.grade, 10)\<close>\<close>
  "serialize_exposure encode ex =
     (let idBytes = encode (exp_id ex)
      in le_bytes 4 (length idBytes) @ idBytes
         @ le_bytes 8 (unat (parseFloat_number (exp_time ex)))
         @ le_bytes 4 (nat (parseInt10 (exp_grade ex) mod 2 ^ 32))
         @ (case exp_maskData ex of
              None \<Rightarrow> [0]
            | Some md \<Rightarrow>
                [1] @ le_bytes 4 (img_width md) @ le_bytes 4 (img_height md) @ img_data md))"

definition serializeProject :: "(string \<Rightarrow> 8 word list) \<Rightarrow> (64 word) project \<Rightarrow> 8 word list" where
  \<comment> \<open>the buffer that saveProjectData writes to the .ddr file\<close>
  "serializeProject encode p =
     (let paperTypeBytes = encode (proj_paperType p)
      in [68, 68, 82, 77] @ le_bytes 4 1
         @ le_bytes 4 (length paperTypeBytes) @ paperTypeBytes
         @ le_bytes 4 (length (proj_exposures p))
         @ concat (map (serialize_exposure encode) (proj_exposures p)))"

definition roundtrips :: "(string \<Rightarrow> 8 word list) \<Rightarrow> (8 word list \<Rightarrow> string) \<Rightarrow> string \<Rightarrow> bool" where
  \<comment> \<open>the string survives TextEncoder followed by TextDecoder, and its encoding fits a
      32-bit length field\<close>
  "roundtrips encode decode s = (decode (encode s) = s \<and> length (encode s) < 2 ^ 32)"





definition wf_exposure :: "(string \<Rightarrow> 8 word list) \<Rightarrow> (8 word list \<Rightarrow> string)
    \<Rightarrow> (64 word) exposure \<Rightarrow> bool" where
  \<comment> \<open>the id survives the text codec, the time is not -0, the grade is an int32, a mask
      is an ImageData (4 bytes per pixel) whose sides fit 32 bits\<close>
  "wf_exposure encode decode ex =
     (roundtrips encode decode (exp_id ex)
      \<and> exp_time ex \<noteq> neg_zero
      \<and> - (2 ^ 31) \<le> exp_grade ex \<and> exp_grade ex < 2 ^ 31
      \<and> (case exp_maskData ex of
            None \<Rightarrow> True
          | Some md \<Rightarrow> img_width md < 2 ^ 32 \<and> img_height md < 2 ^ 32
                       \<and> length (img_data md) = img_width md * img_height md * 4))"

definition wf_project :: "(string \<Rightarrow> 8 word list) \<Rightarrow> (8 word list \<Rightarrow> string)
    \<Rightarrow> (64 word) project \<Rightarrow> bool" where
  "wf_project encode decode p =
     (roundtrips encode decode (proj_paperType p) \<and> length (proj_exposures p) < 2 ^ 32
      \<and> list_all (wf_exposure encode decode) (proj_exposures p))"

definition mask_bytes :: "imageData option \<Rightarrow> 8 word list" where
  "mask_bytes mo = (case mo of None \<Rightarrow> [0]
     | Some md \<Rightarrow> [1] @ le_bytes 4 (img_width md) @ le_bytes 4 (img_height md) @ img_data md)"

definition example_project :: "(64 word) project" where
  \<comment> \<open>two exposures of 16 s (float64 bits 0x4030000000000000) at grade 5, the first with a
      one-pixel mask\<close>
  "example_project =
     \<lparr>proj_paperType = ''ilford-multigrade'',
      proj_exposures =
        [\<lparr>exp_id = ''1700000000000'', exp_time = 4625196817309499392, exp_grade = 5,
          exp_maskData = Some \<lparr>img_width = 1, img_height = 1, img_data = [255, 0, 0, 128]\<rparr>\<rparr>,
         \<lparr>exp_id = ''1700000000001'', exp_time = 4625196817309499392, exp_grade = 5,
          exp_maskData = None\<rparr>]\<rparr>"

subsection \<open>Histogram builders (generateHistogram of src/script.js, _buildHistogramSampled)\<close>

definition byte_read :: "8 word list \<Rightarrow> int \<Rightarrow> 8 word option" where
  \<comment> \<open>\<open>data[o]\<close> on a Uint8ClampedArray: \<open>undefined\<close> outside the array\<close>
  "byte_read data off = (if 0 \<le> off \<and> nat off < length data then Some (data ! nat off) else None)"

definition incr :: "nat list \<Rightarrow> 8 word \<Rightarrow> nat list" where
  \<comment> \<open>\<open>hist[v]++\<close> on an Array of numbers\<close>
  "incr h v = h[unat v := Suc (h ! unat v)]"

fun count_rgba :: "8 word list \<Rightarrow> nat list \<times> nat list \<times> nat list \<Rightarrow> nat list \<times> nat list \<times> nat list" where
  \<comment> \<open>\<open>for (i = 0; i < imageData.length; i += 4)\<close>; in a last, incomplete pixel the
      missing components are \<open>undefined\<close> and change no bin\<close>
  "count_rgba (rr # gg # bb # aa # rest) (hr, hg, hb) =
     count_rgba rest (incr hr rr, incr hg gg, incr hb bb)"
| "count_rgba [rr, gg, bb] (hr, hg, hb) = (incr hr rr, incr hg gg, incr hb bb)"
| "count_rgba [rr, gg] (hr, hg, hb) = (incr hr rr, incr hg gg, hb)"
| "count_rgba [rr] (hr, hg, hb) = (incr hr rr, hg, hb)"
| "count_rgba [] (hr, hg, hb) = (hr, hg, hb)"

definition maxCount_of :: "nat list \<Rightarrow> nat list \<Rightarrow> nat list \<Rightarrow> nat" where
  \<comment> \<open>\<open>for (i = 0; i < 256; i++) maxCount = Math.max(maxCount, r[i], g[i], b[i])\<close>\<close>
  "maxCount_of hr hg hb =
     foldl (\<lambda>m i. max m (max (hr ! i) (max (hg ! i) (hb ! i)))) 0 [0..<256]"

definition normalize :: "nat \<Rightarrow> nat list \<Rightarrow> jsnum list" where
  \<comment> \<open>\<open>hist[i] /= maxCount\<close>\<close>
  "normalize maxCount h = map (\<lambda>c. js_div (Fin (real c)) (Fin (real maxCount))) h"

definition generateHistogram :: "8 word list \<Rightarrow> jsnum list \<times> jsnum list \<times> jsnum list" where
  \<comment> \<open>the value stored in \<open>this.histogramData\<close>: (r, g, b)\<close>
  "generateHistogram imageData =
     (case count_rgba imageData (replicate 256 0, replicate 256 0, replicate 256 0) of
        (hr, hg, hb) \<Rightarrow>
          (let maxCount = maxCount_of hr hg hb
           in (normalize maxCount hr, normalize maxCount hg, normalize maxCount hb)))"

definition incr32 :: "32 word list \<Rightarrow> 8 word option \<Rightarrow> 32 word list" where
  \<comment> \<open>\<open>hist[data[o]]++\<close> on a Uint32Array; an \<open>undefined\<close> index changes no bin\<close>
  "incr32 h v = (case v of None \<Rightarrow> h | Some b \<Rightarrow> h[unat b := h ! unat b + 1])"

definition steps4 :: "nat \<Rightarrow> nat list" where
  \<comment> \<open>the values of \<open>for (x = 0; x < n; x += 4)\<close>\<close>
  "steps4 n = map (\<lambda>i. 4 * i) [0..<(n + 3) div 4]"

definition sample_offsets :: "nat \<Rightarrow> nat \<Rightarrow> int list" where
  \<comment> \<open>\<open>o = (y * width * 4) + (x << 2)\<close> for the sampled rows and columns, in loop order\<close>
  "sample_offsets width height =
     concat (map (\<lambda>y. map (\<lambda>x. int (y * width * 4) + wrap_int32 (int x * 4)) (steps4 width))
               (steps4 height))"

definition sample_step :: "8 word list \<Rightarrow> 32 word list \<times> 32 word list \<times> 32 word list \<Rightarrow> int
    \<Rightarrow> 32 word list \<times> 32 word list \<times> 32 word list" where
  "sample_step data h off =
     (case h of (hr, hg, hb) \<Rightarrow>
        (incr32 hr (byte_read data off), incr32 hg (byte_read data (off + 1)),
         incr32 hb (byte_read data (off + 2))))"

definition buildHistogramSampled :: "imageData \<Rightarrow> 32 word list \<times> 32 word list \<times> 32 word list" where
  "buildHistogramSampled imageData =
     foldl (sample_step (img_data imageData)) (replicate 256 0, replicate 256 0, replicate 256 0)
       (sample_offsets (img_width imageData) (img_height imageData))"

definition occurrences :: "8 word list \<Rightarrow> int list \<Rightarrow> 8 word \<Rightarrow> nat" where
  \<comment> \<open>how many of the offsets hold the byte v\<close>
  "occurrences data offsets v = length (filter (\<lambda>off. byte_read data off = Some v) offsets)"

subsection \<open>Mask painting (src/script.js: _stamp, updateMaskData, clearMask)\<close>

text \<open>
  The mask canvas belongs to the browser. Its state is a value of an arbitrary type
  \<open>'c\<close>; \<open>alpha_of cv j\<close> is the alpha byte that getImageData returns for pixel j.
  What a fill does to the alpha of one pixel is written with the compositing rules the
  source selects by name, in exact arithmetic.
\<close>

datatype tool = Dodge | Erase

datatype composite = SourceOver | DestinationOut

record brush =
  activeTool :: tool
  brushFeather :: real
  brushFlow :: real

record fill_call =
  fc_composite :: composite
  fc_globalAlpha :: real
  fc_stops :: "(real \<times> real) list"
  fc_center :: "real \<times> real"
  fc_radius :: real

definition stamp_call :: "brush \<Rightarrow> real \<Rightarrow> real \<Rightarrow> real \<Rightarrow> fill_call" where
  \<comment> \<open>what _stamp(x, y, R) asks of the 2D context: the blend mode, globalAlpha, and the
      stops (offset, alpha) of the radial gradient it fills the disc with\<close>
  "stamp_call b x y R =
     (let tInner = max 0 (min 1 (1 - brushFeather b / 100));
          tMid = max tInner (min 1 (1 - (brushFeather b * (1 / 2)) / 100))
      in \<lparr>fc_composite = (if activeTool b = Erase then DestinationOut else SourceOver),
          fc_globalAlpha = (if activeTool b = Erase then 1 else brushFlow b),
          fc_stops = [(0, 1), (tInner, 1), (tMid, 6 / 10), (1, 0)],
          fc_center = (x, y), fc_radius = R\<rparr>)"











definition zero_time_cexp :: cpu_exposure where
  "zero_time_cexp = \<lparr>cexp_time = Fin 0, cexp_grade = 0, cexp_mask = None\<rparr>"

definition negative_time_cexp :: cpu_exposure where
  "negative_time_cexp = \<lparr>cexp_time = Fin (- 1), cexp_grade = 0, cexp_mask = None\<rparr>"

definition zero_time_pre :: pre where
  "zero_time_pre = \<lparr>pre_k = 22 / 10, pre_E0 = Fin (ln 16 / ln 10), pre_logTime = NInf, pre_mask = None\<rparr>"

definition negative_time_pre :: pre where
  "negative_time_pre = \<lparr>pre_k = 22 / 10, pre_E0 = Fin (ln 16 / ln 10), pre_logTime = NaN, pre_mask = None\<rparr>"

definition zero_time_exposure :: "jsnum exposure" where
  "zero_time_exposure = \<lparr>exp_id = ''zero'', exp_time = Fin 0, exp_grade = 0, exp_maskData = None\<rparr>"

definition negative_time_exposure :: "jsnum exposure" where
  "negative_time_exposure = \<lparr>exp_id = ''negative'', exp_time = Fin (- 1), exp_grade = 0,
                              exp_maskData = None\<rparr>"

definition sampled_count :: "imageData \<Rightarrow> nat \<Rightarrow> 8 word \<Rightarrow> nat" where
  \<comment> \<open>how many pixels on every 4th row and every 4th column have the byte v in
      channel c (0 = R, 1 = G, 2 = B)\<close>
  "sampled_count img c v =
     length (filter (\<lambda>(y, x). y mod 4 = 0 \<and> x mod 4 = 0
                       \<and> byte_read (img_data img) (int (4 * (y * img_width img + x) + c)) = Some v)
               (List.product [0..<img_height img] [0..<img_width img]))"

definition channel_count :: "8 word list \<Rightarrow> nat \<Rightarrow> 8 word \<Rightarrow> nat" where
  \<comment> \<open>how many pixels of an RGBA buffer have the byte v in channel c\<close>
  "channel_count data c v = length (filter (\<lambda>i. i mod 4 = c \<and> data ! i = v) [0..<length data])"

definition strip_image :: imageData where
  \<comment> \<open>one row of five pixels; only columns 0 and 4 are on the sampling grid\<close>
  "strip_image = \<lparr>img_width = 5, img_height = 1,
                    img_data = [10, 20, 30, 255, 1, 2, 3, 255, 1, 2, 3, 255, 1, 2, 3, 255,
                                10, 21, 30, 255]\<rparr>"

definition tuned_engine :: gpu_engine where
  \<comment> \<open>a one-pixel negative of full transmittance with a two-entry table that the shader
      reads as 150/199 at x = 0, after an earlier render\<close>
  "tuned_engine =
     \<lparr>gpu_size = (1, 1), gpu_trans = [255],
      gpu_lut = uploadLUT \<lparr>lut_values = [192 / 255, 193 / 255], lut_lo = - (42 / 199),
                           lut_hi = 157 / 199, lut_step = 1\<rparr>,
      gpu_masks = 12\<rparr>"



section \<open>Shared lemmas\<close>

subsection \<open>The CPU accumulation loop\<close>

lemma sigmoid_cases: "sigmoid L x = NaN \<or> (\<exists>v. sigmoid L x = Fin v)"
  by (simp add: sigmoid_def typed_at_def)

lemma Dexcess_of_cases:
  "Dexcess_of Dmin spanD L logT j ex = NaN \<or> (\<exists>d. Dexcess_of Dmin spanD L logT j ex = Fin d)"
proof -
  let ?x = "js_mul (Fin (pre_k ex))
              (js_sub (js_add (js_add (pre_logTime ex) logT)
                         (logMask_of (mask_value (pre_mask ex) j))) (pre_E0 ex))"
  from sigmoid_cases [of L ?x] show ?thesis
    by (auto simp: Dexcess_of_def Let_def js_sub_def)
qed

lemma accumulate_step:
  "accumulate Dmin spanD L logT j (ex # rest) (Fin s) =
     (let c = contrib Dmin spanD L logT j ex
      in if 0 < c then (if spanD \<le> s + c then Fin spanD
                        else accumulate Dmin spanD L logT j rest (Fin (s + c)))
         else accumulate Dmin spanD L logT j rest (Fin s))"
  using Dexcess_of_cases [of Dmin spanD L logT j ex]
  by (auto simp: contrib_def Let_def js_gt_def js_ge_def)

lemma contrib_nonneg: "0 \<le> contrib Dmin spanD L logT j ex"
  by (simp add: contrib_def split: jsnum.splits)

lemma accumulate_eq:
  "s \<le> spanD \<Longrightarrow>
   accumulate Dmin spanD L logT j ps (Fin s)
     = Fin (min spanD (s + sum_list (map (contrib Dmin spanD L logT j) ps)))"
proof (induction ps arbitrary: s)
  case Nil
  then show ?case by simp
next
  case (Cons ex rest)
  let ?c = "contrib Dmin spanD L logT j ex"
  let ?r = "sum_list (map (contrib Dmin spanD L logT j) rest)"
  have c0: "0 \<le> ?c" by (rule contrib_nonneg)
  have r0: "0 \<le> ?r" by (rule sum_list_nonneg) (auto simp: contrib_nonneg)
  show ?case
  proof (cases "0 < ?c")
    case True
    show ?thesis
    proof (cases "spanD \<le> s + ?c")
      case True
      with \<open>0 < ?c\<close> r0 show ?thesis
        by (simp add: accumulate_step Let_def del: accumulate.simps)
    next
      case False
      with \<open>0 < ?c\<close> Cons.IH [of "s + ?c"] show ?thesis
        by (simp add: accumulate_step Let_def add.assoc del: accumulate.simps)
    qed
  next
    case False
    with c0 have "?c = 0" by simp
    with Cons.IH [OF Cons.prems] show ?thesis
      by (simp add: accumulate_step Let_def del: accumulate.simps)
  qed
qed

subsection \<open>The shader loop\<close>

lemma length_pad_to [simp]: "length (pad_to n z xs) = n"
  by (simp add: pad_to_def)

lemma pad_to_nth: "i < length xs \<Longrightarrow> i < n \<Longrightarrow> pad_to n z xs ! i = xs ! i"
  by (simp add: pad_to_def nth_append)

lemma exposure_extra_nonneg: "exposure_extra U T lt al e = Some v \<Longrightarrow> 0 \<le> v"
  by (auto simp: exposure_extra_def Let_def split: jsnum.splits)

lemma extra_of_nonneg: "0 \<le> extra_of U T lt al e"
  by (auto simp: extra_of_def dest: exposure_extra_nonneg split: option.splits)

lemma shader_loop_sum:
  "\<forall>e \<in> set es. exposure_extra U T lt al e \<noteq> None \<Longrightarrow>
   shader_loop U T lt al es d0 = Some (d0 + sum_list (map (extra_of U T lt al) es))"
proof (induction es arbitrary: d0)
  case Nil
  then show ?case by simp
next
  case (Cons e es)
  then obtain v where v: "exposure_extra U T lt al e = Some v" by auto
  with Cons show ?case by (simp add: extra_of_def add.assoc)
qed

lemma shader_loop_ge:
  "shader_loop U T lt al es d0 = Some d \<Longrightarrow> d0 \<le> d"
proof (induction es arbitrary: d0)
  case Nil
  then show ?case by simp
next
  case (Cons e es)
  then obtain v where v: "exposure_extra U T lt al e = Some v"
    and r: "shader_loop U T lt al es (d0 + v) = Some d"
    by (auto split: option.splits)
  from Cons.IH [OF r] exposure_extra_nonneg [OF v] show ?case by simp
qed

lemma shader_density_range:
  assumes "shader_density U T tr al = Some d" and "uDmin U \<le> uDmax U"
  shows "uDmin U \<le> d \<and> d \<le> uDmax U"
proof -
  from assms(1) obtain t where
    t: "shader_loop U T (glsl_log10 (max (1 / 1000000) tr)) al [0..<uExposureCount U] (uDmin U) = Some t"
    and d: "d = min t (uDmax U)"
    by (auto simp: shader_density_def Let_def split: option.splits)
  from shader_loop_ge [OF t] assms(2) d show ?thesis by simp
qed

lemma exposure_uniforms_ok:
  assumes "0 < paper_baseExposure pap" and "finite_time (exp_time ex)"
    and "valid_grade pap (exp_grade ex)"
  shows "\<exists>lt kk e0 hm. exposure_uniforms pap ex = Inr (Fin lt, kk, Fin e0, hm)"
proof -
  from assms(2) obtain t where t: "exp_time ex = Fin t"
    by (auto simp: finite_time_def split: jsnum.splits)
  have l10: "ln (10::real) \<noteq> 0" by simp
  have m: "js_max (Fin (1 / 1000000)) (Fin t) = Fin (max (1 / 1000000) t)"
    by (simp add: js_max_def is_NaN_def max_def)
  have p: "0 < paper_baseExposure pap * 2 powr s" for s
    using assms(1) by simp
  show ?thesis
    using assms(3) p l10
    by (simp add: exposure_uniforms_def gradeParams_at_def valid_grade_def t m js_log10_def)
qed

lemma all_uniforms_ok:
  assumes "0 < paper_baseExposure pap"
    and "\<forall>ex \<in> set exs. finite_time (exp_time ex) \<and> valid_grade pap (exp_grade ex)"
  shows "\<exists>us. all_uniforms pap exs = Inr us \<and> length us = length exs
            \<and> (\<forall>u \<in> set us. \<exists>lt kk e0 hm. u = (Fin lt, kk, Fin e0, hm))"
  using assms(2)
proof (induction exs)
  case Nil
  then show ?case by simp
next
  case (Cons ex exs)
  from Cons.prems exposure_uniforms_ok [OF assms(1), of ex]
  obtain lt kk e0 hm where u: "exposure_uniforms pap ex = Inr (Fin lt, kk, Fin e0, hm)"
    by auto
  from Cons obtain us where us: "all_uniforms pap exs = Inr us" "length us = length exs"
    "\<forall>u \<in> set us. \<exists>lt kk e0 hm. u = (Fin lt, kk, Fin e0, hm)"
    by auto
  from u us show ?case by simp
qed

lemma uploadMasksList_ok:
  "\<forall>ex \<in> set exs. mask_ok ex \<Longrightarrow> \<exists>ts. uploadMasksList exs = Inr ts \<and> length ts = length exs"
proof (induction exs)
  case Nil
  then show ?case by simp
next
  case (Cons ex exs)
  then have "mask_ok ex" by simp
  then have "\<exists>t. uploadMask1 ex = Inr t"
    by (auto simp: mask_ok_def uploadMask1_def split: option.splits)
  then obtain t where t: "uploadMask1 ex = Inr t" ..
  from Cons obtain ts where "uploadMasksList exs = Inr ts" "length ts = length exs" by auto
  with t show ?case by simp
qed

lemma render_uniforms_ok:
  assumes "gpu_renderable pap exposures"
  shows "\<exists>U. render_uniforms pap exposures = Inr U
           \<and> uDmin U = paper_Dmin pap \<and> uDmax U = paper_Dmax pap
           \<and> uExposureCount U = min (length exposures) maxExposures
           \<and> (\<forall>e < uExposureCount U. \<exists>lt e0. uLogT U ! e = Fin lt \<and> uE0 U ! e = Fin e0)"
proof -
  let ?n = "min (length exposures) maxExposures"
  have tk: "take ?n exposures = take maxExposures exposures" by (simp add: min_def)
  from assms all_uniforms_ok [of pap "take ?n exposures"]
  obtain us where us: "all_uniforms pap (take ?n exposures) = Inr us"
    "length us = ?n" "\<forall>u \<in> set us. \<exists>lt kk e0 hm. u = (Fin lt, kk, Fin e0, hm)"
    unfolding gpu_renderable_def tk by (auto simp: min_def)
  have fin: "\<exists>lt e0. map (\<lambda>(lt, kk, e0, hm). lt) us ! e = Fin lt
                   \<and> map (\<lambda>(lt, kk, e0, hm). e0) us ! e = Fin e0" if "e < ?n" for e
  proof -
    from that us(2) have "us ! e \<in> set us" by simp
    with us(3) obtain lt kk e0 hm where "us ! e = (Fin lt, kk, Fin e0, hm)" by blast
    with that us(2) show ?thesis by simp
  qed
  show ?thesis
    using us(1,2) fin
    by (simp add: render_uniforms_def Let_def pad_to_nth)
qed

lemma gpu_density_total:
  assumes "gpu_renderable pap exposures" and "paper_Dmin pap \<le> paper_Dmax pap"
  shows "\<exists>d. gpu_density eng pap exposures px = Inr (Some d)
           \<and> paper_Dmin pap \<le> d \<and> d \<le> paper_Dmax pap"
proof -
  from render_uniforms_ok [OF assms(1)] obtain U where
    U: "render_uniforms pap exposures = Inr U" "uDmin U = paper_Dmin pap"
       "uDmax U = paper_Dmax pap"
       "\<forall>e < uExposureCount U. \<exists>lt e0. uLogT U ! e = Fin lt \<and> uE0 U ! e = Fin e0"
    by blast
  have tk: "take (min (length exposures) maxExposures) exposures = take maxExposures exposures"
    by (simp add: min_def)
  from assms(1) have "\<forall>ex \<in> set (take maxExposures exposures). mask_ok ex"
    by (simp add: gpu_renderable_def)
  from uploadMasksList_ok [OF this]
  obtain ts where ts: "uploadMasks exposures = Inr ts"
    unfolding uploadMasks_def tk by blast
  let ?T = "lut_unit eng"
  let ?tr = "byte_at (gpu_trans eng) (snd px * fst (gpu_size eng) + fst px)"
  let ?al = "pad_to maxExposures 0 (map (\<lambda>t. mask_alpha t (gpu_size eng) px) ts)"
  let ?lt = "glsl_log10 (max (1 / 1000000) ?tr)"
  have "\<forall>e \<in> set [0..<uExposureCount U]. exposure_extra U ?T ?lt ?al e \<noteq> None"
    using U(4) by (auto simp: exposure_extra_def Let_def)
  from shader_loop_sum [OF this]
  obtain t where "shader_loop U ?T ?lt ?al [0..<uExposureCount U] (uDmin U) = Some t"
    by blast
  then have sd: "shader_density U ?T ?tr ?al = Some (min t (uDmax U))"
    by (simp add: shader_density_def Let_def)
  from shader_density_range [OF sd] assms(2) U(2,3)
  have "paper_Dmin pap \<le> min t (uDmax U) \<and> min t (uDmax U) \<le> paper_Dmax pap" by simp
  with U(1) ts sd show ?thesis
    by (simp add: gpu_density_def)
qed

section \<open>Claims\<close>

text \<open>
  C3. For valid parameters (Dmax > Dmin \<ge> 0, slope k > 0, any midtone E0) and any logE, the
  value of densityFromLogE lies in [Dmin, Dmax], and it is monotonically non-decreasing in
  logE when the other parameters are fixed.
\<close>

theorem densityFromLogE_range_mono:
  assumes "0 \<le> Dmin" and "Dmin < Dmax" and "0 < k"
  shows "Dmin \<le> densityFromLogE logE Dmin Dmax k E0
       \<and> densityFromLogE logE Dmin Dmax k E0 \<le> Dmax
       \<and> (\<forall>a b. a \<le> b \<longrightarrow>
             densityFromLogE a Dmin Dmax k E0 \<le> densityFromLogE b Dmin Dmax k E0)"
proof -
  have range: "Dmin \<le> densityFromLogE logE Dmin Dmax k E0
             \<and> densityFromLogE logE Dmin Dmax k E0 \<le> Dmax"
    using assms by (simp add: densityFromLogE_def Let_def)
  have mono: "densityFromLogE a Dmin Dmax k E0 \<le> densityFromLogE b Dmin Dmax k E0"
    if ab: "a \<le> b" for a b
  proof -
    have "- k * (b - E0) \<le> - k * (a - E0)"
      using ab assms(3) by (simp add: mult_left_mono)
    then have e: "exp (- k * (b - E0)) \<le> exp (- k * (a - E0))"
      by simp
    have pa: "0 < 1 + exp (- k * (a - E0))" and pb: "0 < 1 + exp (- k * (b - E0))"
      by (simp_all add: add_pos_pos)
    have "(Dmax - Dmin) / (1 + exp (- k * (a - E0)))
        \<le> (Dmax - Dmin) / (1 + exp (- k * (b - E0)))"
      using e pb assms(2) by (intro divide_left_mono) (simp_all add: add_pos_pos)
    then show ?thesis
      by (simp add: densityFromLogE_def Let_def)
  qed
  from range mono show ?thesis by blast
qed

theorem densityFromLogE_range_mono_witness:
  "(0::real) \<le> 6 / 100 \<and> (6 / 100 :: real) < 205 / 100 \<and> (0::real) < 42 / 10
   \<and> 6 / 100 \<le> densityFromLogE 0 (6 / 100) (205 / 100) (42 / 10) 0
   \<and> densityFromLogE 0 (6 / 100) (205 / 100) (42 / 10) 0 \<le> 205 / 100
   \<and> densityFromLogE 0 (6 / 100) (205 / 100) (42 / 10) 0
       \<le> densityFromLogE 1 (6 / 100) (205 / 100) (42 / 10) 0"
proof -
  have h1: "(0::real) \<le> 6 / 100" by simp
  have h2: "(6 / 100 :: real) < 205 / 100" by simp
  have h3: "(0::real) < 42 / 10" by simp
  have h4: "(0::real) \<le> 1" by simp
  from densityFromLogE_range_mono [OF h1 h2 h3, of 0 0] h4 show ?thesis
    by simp
qed

lemma Dsum_pixel_eq:
  assumes "paper_Dmin pap \<le> paper_Dmax pap"
  shows "Dsum_pixel pap L logTrans ps j =
         Fin (min (paper_Dmax pap - paper_Dmin pap)
                (sum_list (map (contrib (paper_Dmin pap) (paper_Dmax pap - paper_Dmin pap) L
                                  (typed_at logTrans (int j)) j) ps)))"
  using assms by (simp add: Dsum_pixel_def Let_def accumulate_eq)

lemma contrib_sum_nonneg:
  "0 \<le> sum_list (map (contrib Dmin spanD L logT j) ps)"
  by (rule sum_list_nonneg) (auto simp: contrib_nonneg)

lemma Dfinal_pixel_eq:
  assumes "paper_Dmin pap \<le> paper_Dmax pap" and "Dsum_pixel pap L logTrans ps j = Fin d"
  shows "Dfinal_pixel pap L logTrans ps j = Fin (min (paper_Dmin pap + d) (paper_Dmax pap))"
proof -
  from assms Dsum_pixel_eq [OF assms(1), of L logTrans ps j]
  have "d \<le> paper_Dmax pap - paper_Dmin pap" by simp
  with assms(2) show ?thesis
    by (auto simp: Dfinal_pixel_def Let_def js_ge_def min_def)
qed

lemma exp_12_ge: "(4096::real) \<le> exp 12"
proof -
  have "(2::real) \<le> exp 1" using exp_ge_add_one_self [of "1::real"] by simp
  then have "(2::real) ^ 12 \<le> exp 1 ^ 12" by (intro power_mono) simp_all
  also have "exp (1::real) ^ 12 = exp (of_nat 12 * 1)" by (simp only: exp_of_nat_mult)
  finally show ?thesis by simp
qed

lemma ln_millionth: "ln (1 / 1000000 :: real) = - 6 * ln 10"
proof -
  have "ln (1 / 1000000 :: real) = - ln (10 ^ 6)" by (simp add: ln_div)
  also have "\<dots> = - 6 * ln 10" by (simp only: ln_realpow)
  finally show ?thesis .
qed

lemma ln_hundred_million: "ln (100000000 :: real) = 8 * ln 10"
proof -
  have "ln (100000000 :: real) = ln (10 ^ 8)" by simp
  also have "\<dots> = 8 * ln 10" by (simp only: ln_realpow)
  finally show ?thesis .
qed

lemma log10_16_bounds: "0 \<le> ln (16::real) / ln 10 \<and> ln (16::real) / ln 10 \<le> 2"
proof -
  have "ln (16::real) \<le> ln (10 ^ 2)" by (subst ln_le_cancel_iff) simp_all
  also have "\<dots> = 2 * ln 10" by (simp only: ln_realpow)
  finally have "ln (16::real) \<le> 2 * ln 10" .
  moreover have "0 < ln (10::real)" by simp
  ultimately show ?thesis by (simp add: pos_divide_le_eq)
qed

lemma lut_lo_make [simp]: "lut_lo (makeSigmoidLUT N) = - 12"
  and lut_hi_make [simp]: "lut_hi (makeSigmoidLUT N) = 12"
  and lut_step_make [simp]: "lut_step (makeSigmoidLUT N) = 24 / (real N - 1)"
  and lut_length_make [simp]: "length (lut_values (makeSigmoidLUT N)) = N"
  by (simp_all add: makeSigmoidLUT_def Let_def)

lemma sigmoid_low: "a \<le> - 12 \<Longrightarrow> sigmoid (makeSigmoidLUT N) (Fin a) = Fin 0"
  by (simp add: sigmoid_def)

lemma sigmoid_high: "12 \<le> a \<Longrightarrow> sigmoid (makeSigmoidLUT N) (Fin a) = Fin 1"
  by (simp add: sigmoid_def js_ge_def)

lemma precompute1_dark: "precompute1 ilford_multigrade dark_cexp = Inr dark_pre"
  by (simp add: precompute1_def ilford_multigrade_def dark_cexp_def dark_pre_def gradeParams_at_def
      gp_def LOG10E_def ln_millionth Let_def)

lemma precompute1_bright: "precompute1 ilford_multigrade bright_cexp = Inr bright_pre"
  by (simp add: precompute1_def ilford_multigrade_def bright_cexp_def bright_pre_def gradeParams_at_def
      gp_def LOG10E_def ln_hundred_million Let_def)

lemma Dexcess_dark:
  "Dexcess_of (6 / 100) (199 / 100) (makeSigmoidLUT N) (Fin 0) j dark_pre = Fin 0"
proof -
  have "22 / 10 * (- 6 - e) \<le> - 12" if "0 \<le> e" for e :: real
    using that by (simp add: algebra_simps)
  from this [of "ln 16 / ln 10"] log10_16_bounds
  have "22 / 10 * (- 6 - ln 16 / ln (10::real)) \<le> - 12" by blast
  then show ?thesis
    by (simp add: Dexcess_of_def dark_pre_def mask_value_def logMask_of_def js_gt_def js_sub_def
        Let_def sigmoid_low)
qed

lemma Dexcess_bright:
  "Dexcess_of (6 / 100) (199 / 100) (makeSigmoidLUT N) (Fin 0) j bright_pre = Fin (199 / 100)"
proof -
  have "12 \<le> 22 / 10 * (8 - e)" if "e \<le> 2" for e :: real
    using that by (simp add: algebra_simps)
  from this [of "ln 16 / ln 10"] log10_16_bounds
  have "12 \<le> 22 / 10 * (8 - ln 16 / ln (10::real))" by blast
  then show ?thesis
    by (simp add: Dexcess_of_def bright_pre_def mask_value_def logMask_of_def js_gt_def js_sub_def
        Let_def sigmoid_high)
qed


lemma precompute_Inr:
  "precompute pap exs = Inr ps \<longleftrightarrow> map (precompute1 pap) exs = map Inr ps"
proof (induction exs arbitrary: ps)
  case Nil
  then show ?case by auto
next
  case (Cons ex exs)
  show ?case
  proof (cases "precompute1 pap ex")
    case (Inl e)
    then show ?thesis by (auto simp: map_eq_Cons_conv)
  next
    case (Inr p)
    show ?thesis
    proof (cases "precompute pap exs")
      case (Inl e)
      with Cons.IH Inr show ?thesis
        by (auto simp: map_eq_Cons_conv)
    next
      case (Inr qs)
      with Cons.IH [of qs] \<open>precompute1 pap ex = Inr p\<close> show ?thesis
        by (auto simp: map_eq_Cons_conv)
    qed
  qed
qed







lemma exposure_extra_cong:
  assumes "uLogT U ! e = uLogT U' ! e'" and "uE0 U ! e = uE0 U' ! e'"
    and "uK U ! e = uK U' ! e'" and "uHasMask U ! e = uHasMask U' ! e'"
    and "al ! e = al' ! e'" and "uDmin U = uDmin U'" and "uDmax U = uDmax U'"
  shows "exposure_extra U T lt al e = exposure_extra U' T lt al' e'"
  unfolding exposure_extra_def assms by (rule refl)

lemma all_uniforms_Inr:
  "all_uniforms pap exs = Inr us \<Longrightarrow> map (exposure_uniforms pap) exs = map Inr us"
proof (induction exs arbitrary: us)
  case Nil
  then show ?case by auto
next
  case (Cons ex exs)
  then show ?case by (auto split: sum.splits)
qed

lemma uploadMasksList_Inr:
  "uploadMasksList exs = Inr ts \<Longrightarrow> map uploadMask1 exs = map Inr ts"
proof (induction exs arbitrary: ts)
  case Nil
  then show ?case by auto
next
  case (Cons ex exs)
  then show ?case by (auto split: sum.splits)
qed

lemma gpu_density_sum:
  assumes "gpu_renderable pap exposures"
  shows "gpu_density eng pap exposures px =
         Inr (Some (min (paper_Dmin pap
                          + sum_list (map (single_extra eng pap px) (take maxExposures exposures)))
                        (paper_Dmax pap)))"
proof -
  let ?n = "min (length exposures) maxExposures"
  let ?xs = "take maxExposures exposures"
  have tk: "take ?n exposures = ?xs" by (simp add: min_def)
  have lx: "length ?xs = ?n" by simp
  from assms have ok: "0 < paper_baseExposure pap"
    "\<forall>ex \<in> set ?xs. finite_time (exp_time ex) \<and> valid_grade pap (exp_grade ex)"
    "\<forall>ex \<in> set ?xs. mask_ok ex"
    by (auto simp: gpu_renderable_def)
  from all_uniforms_ok [OF ok(1,2)] obtain us where
    us: "all_uniforms pap ?xs = Inr us" "length us = ?n"
      "\<forall>u \<in> set us. \<exists>lt kk e0 hm. u = (Fin lt, kk, Fin e0, hm)"
    by auto
  from uploadMasksList_ok [OF ok(3)] obtain ts where
    ts: "uploadMasksList ?xs = Inr ts" "length ts = ?n"
    by auto
  define U where "U = \<lparr>uDmin = paper_Dmin pap, uDmax = paper_Dmax pap,
                  uHi = highlights (paper_colorTone pap),
                  uMid = midtones (paper_colorTone pap),
                  uSh = shadows (paper_colorTone pap),
                  uExposureCount = ?n,
                  uLogT = pad_to maxExposures (Fin 0) (map (\<lambda>(lt, kk, e0, hm). lt) us),
                  uK = pad_to maxExposures 0 (map (\<lambda>(lt, kk, e0, hm). kk) us),
                  uE0 = pad_to maxExposures (Fin 0) (map (\<lambda>(lt, kk, e0, hm). e0) us),
                  uHasMask = pad_to maxExposures 0 (map (\<lambda>(lt, kk, e0, hm). hm) us)\<rparr>"
  have rU: "render_uniforms pap exposures = Inr U"
    using us(1) by (simp add: render_uniforms_def Let_def tk U_def)
  have rT: "uploadMasks exposures = Inr ts"
    using ts(1) by (simp add: uploadMasks_def tk)
  let ?T = "lut_unit eng"
  let ?tr = "byte_at (gpu_trans eng) (snd px * fst (gpu_size eng) + fst px)"
  let ?al = "pad_to maxExposures 0 (map (\<lambda>t. mask_alpha t (gpu_size eng) px) ts)"
  let ?lt = "glsl_log10 (max (1 / 1000000) ?tr)"
  have nth_u: "exposure_uniforms pap (?xs ! e) = Inr (us ! e)" if "e < ?n" for e
    using all_uniforms_Inr [OF us(1)] that us(2) lx by (metis nth_map)
  have nth_t: "uploadMask1 (?xs ! e) = Inr (ts ! e)" if "e < ?n" for e
    using uploadMasksList_Inr [OF ts(1)] that ts(2) lx by (metis nth_map)
  have ex_eq: "exposure_extra U ?T ?lt ?al e \<noteq> None
             \<and> extra_of U ?T ?lt ?al e = single_extra eng pap px (?xs ! e)" if e: "e < ?n" for e
  proof -
    from e us(2) have "us ! e \<in> set us" by simp
    with us(3) obtain lt kk e0 hm where u: "us ! e = (Fin lt, kk, Fin e0, hm)" by blast
    have e12: "e < maxExposures" using e by simp
    have a: "uLogT U ! e = Fin lt" "uE0 U ! e = Fin e0" "uK U ! e = kk" "uHasMask U ! e = hm"
      "?al ! e = mask_alpha (ts ! e) (gpu_size eng) px"
      using e e12 us(2) ts(2) u by (simp_all add: U_def pad_to_nth)
    have n: "exposure_extra U ?T ?lt ?al e \<noteq> None"
      using a by (simp add: exposure_extra_def Let_def)
    let ?U1 = "\<lparr>uDmin = paper_Dmin pap, uDmax = paper_Dmax pap,
                    uHi = highlights (paper_colorTone pap),
                    uMid = midtones (paper_colorTone pap),
                    uSh = shadows (paper_colorTone pap),
                    uExposureCount = 1, uLogT = [Fin lt], uK = [kk], uE0 = [Fin e0],
                    uHasMask = [hm]\<rparr>"
    have "exposure_extra U ?T ?lt ?al e
        = exposure_extra ?U1 ?T ?lt [mask_alpha (ts ! e) (gpu_size eng) px] 0"
      by (rule exposure_extra_cong) (simp_all add: a, simp_all add: U_def)
    then have "extra_of U ?T ?lt ?al e
        = extra_of ?U1 ?T ?lt [mask_alpha (ts ! e) (gpu_size eng) px] 0"
      by (simp add: extra_of_def)
    with nth_u [OF e] nth_t [OF e] u n show ?thesis
      by (simp add: single_extra_def)
  qed
  have cnt: "uExposureCount U = ?n" by (simp add: U_def)
  have all: "\<forall>e \<in> set [0..<uExposureCount U]. exposure_extra U ?T ?lt ?al e \<noteq> None"
    using ex_eq cnt by simp
  have "map (extra_of U ?T ?lt ?al) [0..<?n] = map (single_extra eng pap px) ?xs"
  proof (rule nth_equalityI)
    show "length (map (extra_of U ?T ?lt ?al) [0..<?n]) = length (map (single_extra eng pap px) ?xs)"
      by simp
  next
    fix i assume "i < length (map (extra_of U ?T ?lt ?al) [0..<?n])"
    then have i: "i < ?n" by simp
    with ex_eq [OF i] show "map (extra_of U ?T ?lt ?al) [0..<?n] ! i
        = map (single_extra eng pap px) ?xs ! i"
      by simp
  qed
  with shader_loop_sum [OF all, of "uDmin U"] cnt
  have "shader_loop U ?T ?lt ?al [0..<uExposureCount U] (uDmin U)
      = Some (paper_Dmin pap + sum_list (map (single_extra eng pap px) ?xs))"
    by (simp add: U_def)
  then have "shader_density U ?T ?tr ?al
      = Some (min (paper_Dmin pap + sum_list (map (single_extra eng pap px) ?xs)) (paper_Dmax pap))"
    by (simp add: shader_density_def Let_def U_def)
  with rU rT show ?thesis by (simp add: gpu_density_def)
qed

lemma lut_first:
  assumes "0 < N"
  shows "lut_values (makeSigmoidLUT N) ! 0 = 1 / (1 + exp 12)"
  using assms by (simp add: makeSigmoidLUT_def Let_def)


lemma round_u8_first: "round_u8 (1 / (1 + exp 12) * 255) = 0"
proof -
  have e: "(4096::real) \<le> exp 12" by (rule exp_12_ge)
  have "0 \<le> 255 / (1 + exp (12::real))" by (simp add: add_nonneg_nonneg)
  moreover have "255 / (1 + exp (12::real)) < 1 / 2"
    using e by (simp add: pos_divide_less_eq add_pos_pos)
  ultimately have "\<lfloor>255 / (1 + exp (12::real)) + 1 / 2\<rfloor> = 0"
    by (simp add: floor_eq_iff)
  then show ?thesis by (simp add: round_u8_def)
qed


lemma fetchSigmoid_low:
  assumes "2 \<le> N" and "x \<le> - 12"
  shows "fetchSigmoid (uploadLUT (makeSigmoidLUT N)) x = 0"
proof -
  let ?T = "uploadLUT (makeSigmoidLUT N)"
  from assms(1) have p: "0 < real N - 1" and N0: "0 < N" and rN: "real N \<noteq> 0" by simp_all
  have "(x - - 12) / (24 / (real N - 1)) \<le> 0"
    by (intro divide_nonpos_pos) (use assms(2) p in simp_all)
  then have idx: "min (max ((x - uLUTLo ?T) / uLUTStep ?T) 0) (uLUTLenMinus1 ?T) = 0"
    using p by (simp add: uploadLUT_def)
  have u: "(0 + 1 / 2) / (uLUTLenMinus1 ?T + 1) = 1 / 2 / real N"
    by (simp add: uploadLUT_def)
  have len: "length (tex_bytes ?T) = N" by (simp add: uploadLUT_def)
  have c: "1 / 2 / real N * real N - 1 / 2 = (0::real)" using rN by simp
  have "tex_bytes ?T ! 0 = round_u8 (lut_values (makeSigmoidLUT N) ! 0 * 255)"
    using N0 by (simp add: uploadLUT_def)
  also have "\<dots> = 0"
    unfolding lut_first [OF N0] by (rule round_u8_first)
  finally have b0: "byte_at (tex_bytes ?T) 0 = 0"
    using N0 len by (simp add: byte_at_def)
  have "texture_linear (tex_bytes ?T) (1 / 2 / real N) = 0"
    unfolding texture_linear_def Let_def len c using b0 N0
    by (simp add: clamp_index_def)
  then show ?thesis
    unfolding fetchSigmoid_def Let_def idx u .
qed




lemma white_logTrans:
  "glsl_log10 (max (1 / 1000000)
     (byte_at (gpu_trans white_engine) (snd (0, 0) * fst (gpu_size white_engine) + fst (0, 0)))) = 0"
  by (simp add: white_engine_def byte_at_def glsl_log10_def)

lemma ilford_Dmin: "paper_Dmin ilford_multigrade = 6 / 100"
  and ilford_Dmax: "paper_Dmax ilford_multigrade = 205 / 100"
  by (simp_all add: ilford_multigrade_def)

lemma extra_of_single_nomask:
  "extra_of \<lparr>uDmin = dmin, uDmax = dmax, uHi = th, uMid = tm, uSh = ts, uExposureCount = 1,
             uLogT = [Fin lt], uK = [kk], uE0 = [Fin e0], uHasMask = [0]\<rparr> T 0 [a] 0
     = max 0 (dmin + (dmax - dmin) * fetchSigmoid T (kk * (lt - e0)) - dmin)"
  by (simp add: extra_of_def exposure_extra_def)



lemma dark_bright_ok:
  "finite_time (exp_time dark_exposure) \<and> valid_grade ilford_multigrade (exp_grade dark_exposure)
   \<and> mask_ok dark_exposure
   \<and> finite_time (exp_time bright_exposure) \<and> valid_grade ilford_multigrade (exp_grade bright_exposure)
   \<and> mask_ok bright_exposure \<and> 0 < paper_baseExposure ilford_multigrade"
  by (simp add: finite_time_def valid_grade_def mask_ok_def dark_exposure_def bright_exposure_def
      ilford_multigrade_def)

lemma renderable_dark_bright:
  "set exposures \<subseteq> {dark_exposure, bright_exposure} \<Longrightarrow> gpu_renderable ilford_multigrade exposures"
  unfolding gpu_renderable_def using dark_bright_ok
  by (auto dest!: in_set_takeD)



lemma logTrans_white: "logTrans_of_rgb 0 0 0 = 0"
  by (simp add: logTrans_of_rgb_def EPS_def Let_def)

lemma precompute_dark_bright:
  "precompute ilford_multigrade (replicate n dark_cexp @ [bright_cexp]) = Inr (replicate n dark_pre @ [bright_pre])"
  "precompute ilford_multigrade (replicate n dark_cexp) = Inr (replicate n dark_pre)"
  by (simp_all add: precompute_Inr precompute1_dark precompute1_bright)

lemma ilford_span: "paper_Dmax ilford_multigrade - paper_Dmin ilford_multigrade = 199 / 100"
  by (simp add: ilford_Dmin ilford_Dmax)

lemma contrib_dark:
  "contrib (paper_Dmin ilford_multigrade) (paper_Dmax ilford_multigrade - paper_Dmin ilford_multigrade)
     (makeSigmoidLUT N) (Fin 0) j dark_pre = 0"
  unfolding ilford_span unfolding ilford_Dmin contrib_def Dexcess_dark by simp

lemma contrib_bright:
  "contrib (paper_Dmin ilford_multigrade) (paper_Dmax ilford_multigrade - paper_Dmin ilford_multigrade)
     (makeSigmoidLUT N) (Fin 0) j bright_pre
   = paper_Dmax ilford_multigrade - paper_Dmin ilford_multigrade"
  unfolding ilford_span unfolding ilford_Dmin contrib_def Dexcess_bright by simp

lemma ilford_valid: "paper_Dmin ilford_multigrade \<le> paper_Dmax ilford_multigrade"
  by (simp add: ilford_Dmin ilford_Dmax)

lemma Dfinal_white_13:
  "Dfinal_pixel ilford_multigrade (makeSigmoidLUT N) [0] (replicate 12 dark_pre @ [bright_pre]) 0
     = Fin (paper_Dmax ilford_multigrade)"
proof -
  have t: "typed_at [0] (int 0) = Fin 0" by (simp add: typed_at_def)
  have "Dsum_pixel ilford_multigrade (makeSigmoidLUT N) [0] (replicate 12 dark_pre @ [bright_pre]) 0
      = Fin (paper_Dmax ilford_multigrade - paper_Dmin ilford_multigrade)"
    unfolding Dsum_pixel_eq [OF ilford_valid] t
    by (simp add: contrib_dark contrib_bright sum_list_replicate)
  from Dfinal_pixel_eq [OF ilford_valid this] show ?thesis
    by simp
qed

lemma Dfinal_white_12:
  "Dfinal_pixel ilford_multigrade (makeSigmoidLUT N) [0] (replicate 12 dark_pre) 0
     = Fin (paper_Dmin ilford_multigrade)"
proof -
  have t: "typed_at [0] (int 0) = Fin 0" by (simp add: typed_at_def)
  have "Dsum_pixel ilford_multigrade (makeSigmoidLUT N) [0] (replicate 12 dark_pre) 0 = Fin 0"
    unfolding Dsum_pixel_eq [OF ilford_valid] t
    using ilford_valid by (simp add: contrib_dark sum_list_replicate)
  from Dfinal_pixel_eq [OF ilford_valid this] ilford_valid show ?thesis
    by simp
qed

lemma color_black:
  "color_of_Dfinal ilford_multigrade (Fin (paper_Dmax ilford_multigrade)) = [0, 0, 0, 255]"
  apply (simp add: color_of_Dfinal_def Let_def)
  apply (simp add: ilford_Dmin ilford_Dmax js_sub_def)
  apply (simp add: js_max_def js_min_def is_NaN_def js_gt_def js_sub_def)
  apply (simp add: ilford_multigrade_def rgb_def wrap_int32_def clamp_u8_def)
  done

lemma color_white:
  "color_of_Dfinal ilford_multigrade (Fin (paper_Dmin ilford_multigrade)) = [247, 252, 255, 255]"
  apply (simp add: color_of_Dfinal_def Let_def)
  apply (simp add: ilford_Dmin ilford_Dmax js_sub_def)
  apply (simp add: js_max_def js_min_def is_NaN_def js_gt_def js_sub_def)
  apply (simp add: ilford_multigrade_def rgb_def wrap_int32_def clamp_u8_def)
  done

lemma processImage_13:
  "processImage (white_state (replicate 12 dark_cexp @ [bright_cexp])) = Inr (Some [0, 0, 0, 255])"
  unfolding processImage_def white_state_def
  by (simp add: precompute_dark_bright renderPixel_def logTrans_white Dfinal_white_13 color_black)

lemma processImage_12:
  "processImage (white_state (replicate 12 dark_cexp)) = Inr (Some [247, 252, 255, 255])"
  unfolding processImage_def white_state_def
  by (simp add: precompute_dark_bright renderPixel_def logTrans_white Dfinal_white_12 color_white)

lemma take_cap: "take (min (length xs) maxExposures) (take maxExposures xs) = take maxExposures xs"
  "min (length (take maxExposures xs)) maxExposures = min (length xs) maxExposures"
  "take (min (length xs) maxExposures) xs = take maxExposures xs"
  by (simp_all add: min_def)

lemma render_uniforms_take:
  "render_uniforms pap (take maxExposures exposures) = render_uniforms pap exposures"
  unfolding render_uniforms_def Let_def take_cap ..

lemma uploadMasks_take:
  "uploadMasks (take maxExposures exposures) = uploadMasks exposures"
  unfolding uploadMasks_def take_cap ..

lemma gpu_density_take:
  "gpu_density eng pap (take maxExposures exposures) px = gpu_density eng pap exposures px"
  unfolding gpu_density_def render_uniforms_take uploadMasks_take ..

lemma gpu_pixel_take:
  "gpu_pixel eng pap (take maxExposures exposures) px = gpu_pixel eng pap exposures px"
  unfolding gpu_pixel_def gpu_density_take render_uniforms_take ..

lemma render_uniforms_count:
  "render_uniforms pap exposures = Inr U \<Longrightarrow> uExposureCount U = min (length exposures) maxExposures"
  by (auto simp: render_uniforms_def Let_def split: sum.splits)

text \<open>
  C5 (as amended). GPUEngine.render computes its uniforms and mask textures from the first
  maxExposures = 12 exposures only: for every exposure list, the uniforms, the textures, the
  density and the colour of every fragment are those of the first 12 entries, whatever the
  entries beyond the cap are; the exposure count uniform is min (length, 12); render leaves
  the exposure list as it was.
\<close>

theorem render_uses_first_twelve:
  "render_uniforms pap exposures = render_uniforms pap (take maxExposures exposures)
   \<and> uploadMasks exposures = uploadMasks (take maxExposures exposures)
   \<and> gpu_density eng pap exposures px = gpu_density eng pap (take maxExposures exposures) px
   \<and> gpu_pixel eng pap exposures px = gpu_pixel eng pap (take maxExposures exposures) px
   \<and> maxExposures = 12
   \<and> (\<forall>U ts exps'. render pap exposures = Inr (U, ts, exps')
          \<longrightarrow> exps' = exposures \<and> uExposureCount U = min (length exposures) maxExposures
              \<and> length ts = min (length exposures) maxExposures)"
proof -
  have "exps' = exposures \<and> uExposureCount U = min (length exposures) maxExposures
        \<and> length ts = min (length exposures) maxExposures"
    if r: "render pap exposures = Inr (U, ts, exps')" for U ts exps'
  proof -
    from r have u: "render_uniforms pap exposures = Inr U" and t: "uploadMasks exposures = Inr ts"
      and e: "exps' = exposures"
      by (auto simp: render_def split: sum.splits)
    from t have "map uploadMask1 (take (min (length exposures) maxExposures) exposures) = map Inr ts"
      unfolding uploadMasks_def by (rule uploadMasksList_Inr)
    then have "length ts = length (take (min (length exposures) maxExposures) exposures)"
      by (metis length_map)
    with render_uniforms_count [OF u] e show ?thesis by simp
  qed
  moreover have "maxExposures = 12" by (simp add: maxExposures_def)
  moreover have "render_uniforms pap exposures = render_uniforms pap (take maxExposures exposures)
   \<and> uploadMasks exposures = uploadMasks (take maxExposures exposures)
   \<and> gpu_density eng pap exposures px = gpu_density eng pap (take maxExposures exposures) px
   \<and> gpu_pixel eng pap exposures px = gpu_pixel eng pap (take maxExposures exposures) px"
    by (simp add: render_uniforms_take uploadMasks_take gpu_density_take gpu_pixel_take)
  ultimately show ?thesis by blast
qed

theorem render_uses_first_twelve_witness:
  "\<exists>U ts. render ilford_multigrade (replicate 12 dark_exposure @ [bright_exposure])
            = Inr (U, ts, replicate 12 dark_exposure @ [bright_exposure])
          \<and> uExposureCount U = 12 \<and> length ts = 12"
proof -
  let ?xs = "replicate 12 dark_exposure @ [bright_exposure]"
  have r: "gpu_renderable ilford_multigrade ?xs"
    by (rule renderable_dark_bright) auto
  from render_uniforms_ok [OF r] obtain U where U: "render_uniforms ilford_multigrade ?xs = Inr U"
    by blast
  from r have "\<forall>ex \<in> set (take maxExposures ?xs). mask_ok ex"
    by (simp add: gpu_renderable_def)
  from uploadMasksList_ok [OF this] obtain ts where "uploadMasks ?xs = Inr ts"
    unfolding uploadMasks_def take_cap by blast
  with U have R: "render ilford_multigrade ?xs = Inr (U, ts, ?xs)"
    by (simp add: render_def)
  from render_uses_first_twelve [of ilford_multigrade ?xs white_engine "(0, 0)"] R
  have "uExposureCount U = min (length ?xs) maxExposures \<and> length ts = min (length ?xs) maxExposures"
    by blast
  then have "uExposureCount U = 12 \<and> length ts = 12"
    by (simp add: maxExposures_def)
  with R show ?thesis by blast
qed

theorem cpu_loop_has_no_cap_counterexample:
  "length (replicate 12 dark_cexp @ [bright_cexp]) = 13
   \<and> processImage (white_state (replicate 12 dark_cexp @ [bright_cexp])) = Inr (Some [0, 0, 0, 255])
   \<and> processImage (white_state (take 12 (replicate 12 dark_cexp @ [bright_cexp])))
       = Inr (Some [247, 252, 255, 255])"
  using processImage_13 processImage_12 by simp
















lemma length_le_bytes [simp]: "length (le_bytes k n) = k"
  by (induction k arbitrary: n) simp_all

lemma unat_byte: "unat (of_nat (n mod 256) :: 8 word) = n mod 256"
  by (simp add: unat_of_nat)

lemma le_value_le_bytes: "le_value (le_bytes k n) = n mod 256 ^ k"
proof (induction k arbitrary: n)
  case 0
  then show ?case by simp
next
  case (Suc k)
  have "n mod 256 + 256 * (n div 256 mod 256 ^ k) = n mod (256 * 256 ^ k)"
    by (simp add: mod_mult2_eq)
  with Suc show ?case by (simp add: unat_byte)
qed

lemma slice_shift: "slice (pre @ rest) (length pre + off) len = slice rest off len"
  by (simp add: slice_def)

lemma slice_prefix: "slice (bs @ post) 0 (length bs) = Inr bs"
  by (simp add: slice_def)

lemma slice_here: "k = length bs \<Longrightarrow> slice (bs @ post) 0 k = Inr bs"
  by (simp add: slice_def)

lemma getUint32_shift: "getUint32 (pre @ rest) (length pre + off) = getUint32 rest off"
  by (simp add: getUint32_def slice_shift)

lemma getUint8_shift: "getUint8 (pre @ rest) (length pre + off) = getUint8 rest off"
  by (simp add: getUint8_def slice_shift)

lemma getInt32_shift: "getInt32 (pre @ rest) (length pre + off) = getInt32 rest off"
  by (simp add: getInt32_def slice_shift)

lemma getFloat64_shift: "getFloat64 (pre @ rest) (length pre + off) = getFloat64 rest off"
  by (simp add: getFloat64_def slice_shift)

lemma getUint32_le_bytes: "n < 2 ^ 32 \<Longrightarrow> getUint32 (le_bytes 4 n @ post) 0 = Inr n"
proof -
  assume n: "n < 2 ^ 32"
  have "slice (le_bytes 4 n @ post) 0 4 = Inr (le_bytes 4 n)"
    by (rule slice_here) simp
  then show ?thesis
    using n by (simp add: getUint32_def then_do_def le_value_le_bytes)
qed

lemma getUint8_byte: "n < 256 \<Longrightarrow> getUint8 (of_nat n # post) 0 = Inr n"
  by (simp add: getUint8_def then_do_def slice_def unat_of_nat)

lemma getFloat64_le_bytes: "getFloat64 (le_bytes 8 (unat w) @ post) 0 = Inr w"
proof -
  have "slice (le_bytes 8 (unat w) @ post) 0 8 = Inr (le_bytes 8 (unat w))"
    by (rule slice_here) simp
  moreover have "unat w < 256 ^ 8"
    using unsigned_less [of w, where ?'a = nat] by simp
  ultimately show ?thesis
    by (simp add: getFloat64_def then_do_def le_value_le_bytes)
qed

lemma wrap_int32_id: "- (2 ^ 31) \<le> g \<Longrightarrow> g < 2 ^ 31 \<Longrightarrow> wrap_int32 (g mod 2 ^ 32) = g"
proof -
  assume a: "- (2 ^ 31) \<le> g" "g < 2 ^ 31"
  show ?thesis
  proof (cases "0 \<le> g")
    case True
    with a have "g mod 2 ^ 32 = g" by simp
    with a True show ?thesis by (simp add: wrap_int32_def)
  next
    case False
    have "(g + 2 ^ 32) mod 2 ^ 32 = g + 2 ^ 32"
      by (rule mod_pos_pos_trivial) (use a False in simp_all)
    then have "g mod 2 ^ 32 = g + 2 ^ 32" by simp
    with a False show ?thesis by (simp add: wrap_int32_def)
  qed
qed

lemma getInt32_le_bytes:
  assumes "- (2 ^ 31) \<le> g" and "g < 2 ^ 31"
  shows "getInt32 (le_bytes 4 (nat (g mod 2 ^ 32)) @ post) 0 = Inr g"
proof -
  have s: "slice (le_bytes 4 (nat (g mod 2 ^ 32)) @ post) 0 4 = Inr (le_bytes 4 (nat (g mod 2 ^ 32)))"
    by (rule slice_here) simp
  have "nat (g mod 2 ^ 32) < 2 ^ 32"
    by (simp add: nat_less_iff)
  then have "int (nat (g mod 2 ^ 32) mod 256 ^ 4) = g mod 2 ^ 32" by simp
  with wrap_int32_id [OF assms] s show ?thesis
    by (simp add: getInt32_def then_do_def le_value_le_bytes)
qed

lemma ascii_decode_encode: "ascii_decode (ascii_encode s) = s"
proof -
  have "char_of (unat (of_nat (of_char c) :: 8 word)) = c" for c :: char
  proof -
    have "(of_char c :: nat) < 256" by (rule nat_of_char_less_256)
    then show ?thesis by (simp add: unat_of_nat)
  qed
  then show ?thesis
    by (simp add: ascii_decode_def ascii_encode_def comp_def)
qed

lemma length_ascii_encode [simp]: "length (ascii_encode s) = length s"
  by (simp add: ascii_encode_def)

lemma slice_at:
  "buf = pre @ bs @ post \<Longrightarrow> off = length pre \<Longrightarrow> len = length bs \<Longrightarrow> slice buf off len = Inr bs"
  by (simp add: slice_def)

lemma getUint32_at:
  assumes "buf = pre @ le_bytes 4 n @ post" and "off = length pre" and "n < 2 ^ 32"
  shows "getUint32 buf off = Inr n"
  using getUint32_shift [of pre "le_bytes 4 n @ post" 0] getUint32_le_bytes [OF assms(3), of post]
  by (simp add: assms(1,2))

lemma getFloat64_at:
  assumes "buf = pre @ le_bytes 8 (unat w) @ post" and "off = length pre"
  shows "getFloat64 buf off = Inr w"
  using getFloat64_shift [of pre "le_bytes 8 (unat w) @ post" 0] getFloat64_le_bytes [of w post]
  by (simp add: assms)

lemma getInt32_at:
  assumes "buf = pre @ le_bytes 4 (nat (g mod 2 ^ 32)) @ post" and "off = length pre"
    and "- (2 ^ 31) \<le> g" and "g < 2 ^ 31"
  shows "getInt32 buf off = Inr g"
  using getInt32_shift [of pre "le_bytes 4 (nat (g mod 2 ^ 32)) @ post" 0]
    getInt32_le_bytes [OF assms(3,4), of post]
  by (simp add: assms(1,2))

lemma then_do_Inr: "then_do (Inr x) f = f x"
  and then_do_Inl: "then_do (Inl e) f = Inl e"
  by (simp_all add: then_do_def)

lemma parse_mask_shift:
  "parse_mask (pre @ rest) (length pre + off)
     = then_do (parse_mask rest off) (\<lambda>(m, o'). Inr (m, length pre + o'))"
proof -
  have a: "length pre + off + 1 = length pre + (off + 1)"
    "length pre + off + 5 = length pre + (off + 5)"
    "length pre + off + 9 = length pre + (off + 9)"
    by simp_all
  show ?thesis
    unfolding parse_mask_def a getUint8_shift getUint32_shift slice_shift
    by (auto simp: then_do_def split: sum.splits)
qed

lemma parse_exposure_shift:
  "parse_exposure decode (pre @ rest) (length pre + off)
     = then_do (parse_exposure decode rest off) (\<lambda>(ex, o'). Inr (ex, length pre + o'))"
proof -
  have a: "length pre + off + 4 = length pre + (off + 4)"
    "length pre + (off + 4) + n = length pre + (off + 4 + n)"
    "length pre + (off + 4 + n) + 8 = length pre + (off + 4 + n + 8)"
    "length pre + (off + 4 + n + 8) + 4 = length pre + (off + 4 + n + 8 + 4)" for n
    by simp_all
  show ?thesis
    unfolding parse_exposure_def a getUint32_shift slice_shift getFloat64_shift getInt32_shift
      parse_mask_shift
    by (auto simp: then_do_def split: sum.splits prod.splits)
qed

lemma parse_exposures_shift:
  "parse_exposures decode (pre @ rest) (length pre + off) n = parse_exposures decode rest off n"
proof (induction n arbitrary: off)
  case 0
  then show ?case by simp
next
  case (Suc n)
  show ?case
    unfolding parse_exposures.simps parse_exposure_shift
    by (auto simp: then_do_def Suc.IH split: sum.splits prod.splits)
qed

lemma parse_mask_serialized:
  assumes "case mo of None \<Rightarrow> True
           | Some md \<Rightarrow> img_width md < 2 ^ 32 \<and> img_height md < 2 ^ 32
                        \<and> length (img_data md) = img_width md * img_height md * 4"
  shows "parse_mask (mask_bytes mo @ post) 0 = Inr (mo, length (mask_bytes mo))"
proof (cases mo)
  case None
  have "getUint8 ((0 :: 8 word) # post) 0 = Inr 0"
    using getUint8_byte [of 0 post] by simp
  with None show ?thesis
    by (simp add: parse_mask_def mask_bytes_def then_do_def)
next
  case (Some md)
  with assms have w: "img_width md < 2 ^ 32" and h: "img_height md < 2 ^ 32"
    and l: "length (img_data md) = img_width md * img_height md * 4"
    by simp_all
  let ?W = "le_bytes 4 (img_width md)" and ?H = "le_bytes 4 (img_height md)"
  let ?buf = "[1 :: 8 word] @ ?W @ ?H @ img_data md @ post"
  have f: "getUint8 ?buf 0 = Inr 1"
    using getUint8_byte [of 1 "?W @ ?H @ img_data md @ post"] by simp
  have "getUint32 ([1 :: 8 word] @ (?W @ ?H @ img_data md @ post)) (length [1 :: 8 word] + 0)
      = getUint32 (?W @ ?H @ img_data md @ post) 0"
    by (rule getUint32_shift)
  then have gw: "getUint32 ?buf (0 + 1) = Inr (img_width md)"
    using getUint32_le_bytes [OF w] by simp
  have "getUint32 (([1 :: 8 word] @ ?W) @ (?H @ img_data md @ post)) (length ([1 :: 8 word] @ ?W) + 0)
      = getUint32 (?H @ img_data md @ post) 0"
    by (rule getUint32_shift)
  then have gh: "getUint32 ?buf (0 + 5) = Inr (img_height md)"
    using getUint32_le_bytes [OF h] by simp
  have "slice (([1 :: 8 word] @ ?W @ ?H) @ (img_data md @ post)) (length ([1 :: 8 word] @ ?W @ ?H) + 0)
          (img_width md * img_height md * 4)
      = slice (img_data md @ post) 0 (img_width md * img_height md * 4)"
    by (rule slice_shift)
  then have gd: "slice ?buf (0 + 9) (img_width md * img_height md * 4) = Inr (img_data md)"
    using slice_here [of "img_width md * img_height md * 4" "img_data md" post] l by simp
  have "parse_mask ?buf 0 = Inr (Some md, 0 + 9 + img_width md * img_height md * 4)"
    by (simp only: parse_mask_def f gw gh gd then_do_Inr if_True simp_thms) simp
  with Some l show ?thesis
    by (simp add: mask_bytes_def)
qed

lemma parseInt10_int32: "- (2 ^ 31) \<le> g \<Longrightarrow> g < 2 ^ 31 \<Longrightarrow> parseInt10 g = g"
proof -
  assume "- (2 ^ 31) \<le> g" and "g < 2 ^ 31"
  then have "\<bar>g\<bar> < 10 ^ 21" by simp
  then show ?thesis by (simp only: parseInt10_def if_True)
qed

lemma serialize_exposure_eq:
  assumes "exp_time ex \<noteq> neg_zero" and "- (2 ^ 31) \<le> exp_grade ex" and "exp_grade ex < 2 ^ 31"
  shows "serialize_exposure encode ex =
     le_bytes 4 (length (encode (exp_id ex))) @ encode (exp_id ex)
     @ le_bytes 8 (unat (exp_time ex)) @ le_bytes 4 (nat (exp_grade ex mod 2 ^ 32))
     @ mask_bytes (exp_maskData ex)"
  using assms(1) parseInt10_int32 [OF assms(2,3)]
  by (simp add: serialize_exposure_def mask_bytes_def parseFloat_number_def Let_def
      split: option.splits)

lemma parse_exposure_serialized:
  assumes "wf_exposure encode decode ex"
  shows "parse_exposure decode (serialize_exposure encode ex @ post) 0
       = Inr (ex, length (serialize_exposure encode ex))"
proof -
  from assms have i: "length (encode (exp_id ex)) < 2 ^ 32"
    and d: "decode (encode (exp_id ex)) = exp_id ex"
    and z: "exp_time ex \<noteq> neg_zero"
    and g: "- (2 ^ 31) \<le> exp_grade ex" "exp_grade ex < 2 ^ 31"
    and m: "case exp_maskData ex of None \<Rightarrow> True
           | Some md \<Rightarrow> img_width md < 2 ^ 32 \<and> img_height md < 2 ^ 32
                        \<and> length (img_data md) = img_width md * img_height md * 4"
    by (simp_all add: wf_exposure_def roundtrips_def)
  let ?n = "length (encode (exp_id ex))"
  let ?L = "le_bytes 4 ?n" and ?I = "encode (exp_id ex)"
  let ?T = "le_bytes 8 (unat (exp_time ex))" and ?G = "le_bytes 4 (nat (exp_grade ex mod 2 ^ 32))"
  let ?M = "mask_bytes (exp_maskData ex)"
  let ?buf = "serialize_exposure encode ex @ post"
  note serialize_exposure_eq = serialize_exposure_eq [OF z g]
  have buf: "?buf = ?L @ ?I @ ?T @ ?G @ ?M @ post"
    by (simp add: serialize_exposure_eq)
  have r1: "getUint32 ?buf 0 = Inr ?n"
    by (rule getUint32_at [where pre = "[]" and post = "?I @ ?T @ ?G @ ?M @ post"])
      (use i in \<open>simp_all add: buf\<close>)
  have r2: "slice ?buf (0 + 4) ?n = Inr ?I"
    by (rule slice_at [where pre = ?L and post = "?T @ ?G @ ?M @ post"]) (simp_all add: buf)
  have r3: "getFloat64 ?buf (0 + 4 + ?n) = Inr (exp_time ex)"
    by (rule getFloat64_at [where pre = "?L @ ?I" and post = "?G @ ?M @ post"])
      (simp_all add: buf)
  have r4: "getInt32 ?buf (0 + 4 + ?n + 8) = Inr (exp_grade ex)"
    by (rule getInt32_at [where pre = "?L @ ?I @ ?T" and post = "?M @ post"])
      (use g in \<open>simp_all add: buf\<close>)
  have "parse_mask ((?L @ ?I @ ?T @ ?G) @ (?M @ post)) (length (?L @ ?I @ ?T @ ?G) + 0)
      = then_do (parse_mask (?M @ post) 0) (\<lambda>(m, o'). Inr (m, length (?L @ ?I @ ?T @ ?G) + o'))"
    by (rule parse_mask_shift)
  then have r5: "parse_mask ?buf (0 + 4 + ?n + 8 + 4)
      = Inr (exp_maskData ex, length (serialize_exposure encode ex))"
    unfolding buf parse_mask_serialized [OF m]
    by (simp add: then_do_Inr serialize_exposure_eq add.commute add.left_commute)
  have "parse_exposure decode ?buf 0
      = Inr (\<lparr>exp_id = decode ?I, exp_time = exp_time ex, exp_grade = exp_grade ex,
              exp_maskData = exp_maskData ex\<rparr>, length (serialize_exposure encode ex))"
    by (simp only: parse_exposure_def r1 r2 r3 r4 r5 then_do_Inr prod.case)
  then show ?thesis by (simp add: d)
qed

lemma parse_exposures_serialized:
  "list_all (wf_exposure encode decode) exs \<Longrightarrow>
   parse_exposures decode (concat (map (serialize_exposure encode) exs) @ post) 0 (length exs)
     = Inr exs"
proof (induction exs)
  case Nil
  then show ?case by simp
next
  case (Cons ex exs)
  let ?S = "serialize_exposure encode ex"
  let ?rest = "concat (map (serialize_exposure encode) exs) @ post"
  from Cons.prems have w: "wf_exposure encode decode ex"
    and ws: "list_all (wf_exposure encode decode) exs" by simp_all
  have buf: "concat (map (serialize_exposure encode) (ex # exs)) @ post = ?S @ ?rest" by simp
  have "parse_exposures decode (?S @ ?rest) (length ?S + 0) (length exs)
      = parse_exposures decode ?rest 0 (length exs)"
    by (rule parse_exposures_shift)
  with Cons.IH [OF ws]
  have r: "parse_exposures decode (?S @ ?rest) (length ?S) (length exs) = Inr exs"
    by simp
  show ?case
    unfolding buf using parse_exposure_serialized [OF w, of ?rest] r
    by (simp add: then_do_Inr)
qed

lemma parse_body_serialized:
  assumes "wf_project encode decode p"
  shows "parse_body decode (serializeProject encode p) = Inr (Some p)"
proof -
  from assms have pl: "length (encode (proj_paperType p)) < 2 ^ 32"
    and d: "decode (encode (proj_paperType p)) = proj_paperType p"
    and el: "length (proj_exposures p) < 2 ^ 32"
    and ws: "list_all (wf_exposure encode decode) (proj_exposures p)"
    by (simp_all add: wf_project_def roundtrips_def)
  let ?n = "length (encode (proj_paperType p))"
  let ?magic = "[68, 68, 82, 77] :: 8 word list"
  let ?V = "le_bytes 4 1" and ?L = "le_bytes 4 ?n" and ?P = "encode (proj_paperType p)"
  let ?C = "le_bytes 4 (length (proj_exposures p))"
  let ?E = "concat (map (serialize_exposure encode) (proj_exposures p))"
  let ?buf = "serializeProject encode p"
  have buf: "?buf = ?magic @ ?V @ ?L @ ?P @ ?C @ ?E @ []"
    by (simp add: serializeProject_def Let_def)
  have m: "getUint8 ?buf 0 = Inr 68" "getUint8 ?buf 1 = Inr 68" "getUint8 ?buf 2 = Inr 82"
    "getUint8 ?buf 3 = Inr 77"
    unfolding buf by (simp_all add: getUint8_def slice_def then_do_def)
  have v: "getUint32 ?buf 4 = Inr 1"
    by (rule getUint32_at [where pre = ?magic and post = "?L @ ?P @ ?C @ ?E @ []"])
      (simp_all add: buf)
  have l: "getUint32 ?buf 8 = Inr ?n"
    by (rule getUint32_at [where pre = "?magic @ ?V" and post = "?P @ ?C @ ?E @ []"])
      (use pl in \<open>simp_all add: buf\<close>)
  have s: "slice ?buf 12 ?n = Inr ?P"
    by (rule slice_at [where pre = "?magic @ ?V @ ?L" and post = "?C @ ?E @ []"])
      (simp_all add: buf)
  have c: "getUint32 ?buf (12 + ?n) = Inr (length (proj_exposures p))"
    by (rule getUint32_at [where pre = "?magic @ ?V @ ?L @ ?P" and post = "?E @ []"])
      (use el in \<open>simp_all add: buf\<close>)
  have "parse_exposures decode ((?magic @ ?V @ ?L @ ?P @ ?C) @ (?E @ []))
          (length (?magic @ ?V @ ?L @ ?P @ ?C) + 0) (length (proj_exposures p))
      = parse_exposures decode (?E @ []) 0 (length (proj_exposures p))"
    by (rule parse_exposures_shift)
  moreover have "?buf = (?magic @ ?V @ ?L @ ?P @ ?C) @ (?E @ [])"
    by (simp add: buf)
  moreover have "12 + ?n + 4 = length (?magic @ ?V @ ?L @ ?P @ ?C) + 0"
    by simp
  ultimately have e: "parse_exposures decode ?buf (12 + ?n + 4) (length (proj_exposures p))
      = Inr (proj_exposures p)"
    using parse_exposures_serialized [OF ws, of "[]"] by simp
  have "parse_body decode ?buf
      = Inr (Some \<lparr>proj_paperType = decode ?P, proj_exposures = proj_exposures p\<rparr>)"
    by (simp only: parse_body_def m v l s c e then_do_Inr simp_thms if_False)
  then show ?thesis by (simp add: d)
qed

lemma example_project_wf: "wf_project ascii_encode ascii_decode example_project"
  by (simp add: wf_project_def wf_exposure_def roundtrips_def example_project_def
      ascii_decode_encode neg_zero_def)

lemma getUint8_Inr: "getUint8 buffer i = Inr v \<Longrightarrow> i < length buffer \<and> unat (buffer ! i) = v"
  by (auto simp: getUint8_def slice_def then_do_def take_Suc_conv_app_nth [of i] hd_drop_conv_nth
      take_Suc split: if_splits)

lemma parse_body_Some:
  assumes "parse_body decode buffer = Inr (Some p)"
  shows "getUint8 buffer 0 = Inr 68 \<and> getUint8 buffer 1 = Inr 68 \<and> getUint8 buffer 2 = Inr 82
       \<and> getUint8 buffer 3 = Inr 77 \<and> getUint32 buffer 4 = Inr 1"
proof -
  obtain m0 where m0: "getUint8 buffer 0 = Inr m0" "m0 = 68"
    using assms by (cases "getUint8 buffer 0") (auto simp: parse_body_def then_do_def split: if_splits)
  obtain m1 where m1: "getUint8 buffer 1 = Inr m1" "m1 = 68"
    using assms m0
    by (cases "getUint8 buffer 1") (auto simp: parse_body_def then_do_def split: if_splits)
  obtain m2 where m2: "getUint8 buffer 2 = Inr m2" "m2 = 82"
    using assms m0 m1
    by (cases "getUint8 buffer 2") (auto simp: parse_body_def then_do_def split: if_splits)
  obtain m3 where m3: "getUint8 buffer 3 = Inr m3" "m3 = 77"
    using assms m0 m1 m2
    by (cases "getUint8 buffer 3") (auto simp: parse_body_def then_do_def split: if_splits)
  obtain v where v: "getUint32 buffer 4 = Inr v" "v = 1"
    using assms m0 m1 m2 m3
    by (cases "getUint32 buffer 4") (auto simp: parse_body_def then_do_def split: if_splits)
  from m0 m1 m2 m3 v show ?thesis by simp
qed

lemma magic_of_reads:
  assumes "getUint8 buffer 0 = Inr 68" and "getUint8 buffer 1 = Inr 68"
    and "getUint8 buffer 2 = Inr 82" and "getUint8 buffer 3 = Inr 77"
  shows "take 4 buffer = [68, 68, 82, 77]"
proof -
  from assms [THEN getUint8_Inr] have l: "3 < length buffer"
    and b: "unat (buffer ! 0) = 68" "unat (buffer ! 1) = 68" "unat (buffer ! 2) = 82"
      "unat (buffer ! 3) = 77"
    by simp_all
  from b have "buffer ! 0 = 68" "buffer ! 1 = 68" "buffer ! 2 = 82" "buffer ! 3 = 77"
    by (simp_all add: word_unat_eq_iff)
  moreover have "take 4 buffer = [buffer ! 0, buffer ! 1, buffer ! 2, buffer ! 3]"
  proof -
    from l have t1: "take (Suc 0) buffer = [buffer ! 0]" by (cases buffer) simp_all
    from l have t2: "take (Suc 1) buffer = take 1 buffer @ [buffer ! 1]"
      by (intro take_Suc_conv_app_nth) simp
    from l have t3: "take (Suc 2) buffer = take 2 buffer @ [buffer ! 2]"
      by (intro take_Suc_conv_app_nth) simp
    from l have t4: "take (Suc 3) buffer = take 3 buffer @ [buffer ! 3]"
      by (intro take_Suc_conv_app_nth) simp
    have n: "Suc 1 = 2" "Suc 2 = 3" "Suc 3 = 4" "Suc 0 = 1" by simp_all
    from t1 t2 t3 t4 show ?thesis unfolding n by simp
  qed
  ultimately show ?thesis by simp
qed

text \<open>
  C10. For every input byte buffer (and whatever the text decoder yields),
  parseBinaryProjectData returns a project or null and nothing else (the model has no error
  result and takes no simulator state: it is a function of the buffer alone): it returns null whenever the first four bytes are not
  'DDRM', whenever the version field is absent or not 1, and whenever the body of the try
  block throws; a project is returned only for a buffer with that magic and version.
\<close>

theorem parseBinaryProjectData_total:
  "(take 4 buffer \<noteq> [68, 68, 82, 77] \<longrightarrow> parseBinaryProjectData decode buffer = None)
   \<and> (getUint32 buffer 4 \<noteq> Inr 1 \<longrightarrow> parseBinaryProjectData decode buffer = None)
   \<and> (\<forall>e. parse_body decode buffer = Inl e \<longrightarrow> parseBinaryProjectData decode buffer = None)
   \<and> (\<forall>p. parseBinaryProjectData decode buffer = Some p
          \<longrightarrow> take 4 buffer = [68, 68, 82, 77] \<and> getUint32 buffer 4 = Inr 1
              \<and> parse_body decode buffer = Inr (Some p))"
proof -
  have S: "take 4 buffer = [68, 68, 82, 77] \<and> getUint32 buffer 4 = Inr 1
           \<and> parse_body decode buffer = Inr (Some p)"
    if "parseBinaryProjectData decode buffer = Some p" for p
  proof -
    from that have b: "parse_body decode buffer = Inr (Some p)"
      by (simp add: parseBinaryProjectData_def split: sum.splits)
    from parse_body_Some [OF b] magic_of_reads [of buffer] b show ?thesis by blast
  qed
  have E: "parseBinaryProjectData decode buffer = None" if "parse_body decode buffer = Inl e" for e
    using that by (simp add: parseBinaryProjectData_def)
  from S E show ?thesis
    by (metis not_None_eq)
qed

lemma parse_bad_inputs:
  "parse_body decode [] = Inl RangeError"
  "parse_body decode [68, 68, 82, 77, 1, 0, 0, 0] = Inl RangeError"
  "getUint32 [68, 68, 82, 77, 2, 0, 0, 0, 0, 0, 0, 0, 0, 0, 0, 0] 4 = Inr 2"
  by (simp_all add: parse_body_def getUint8_def getUint32_def slice_def then_do_def)

theorem parseBinaryProjectData_total_witness:
  "take 4 [74, 83, 79, 78, 1, 0, 0, 0] \<noteq> [68, 68, 82, 77 :: 8 word]
   \<and> parseBinaryProjectData ascii_decode [74, 83, 79, 78, 1, 0, 0, 0] = None
   \<and> getUint32 [68, 68, 82, 77, 2, 0, 0, 0, 0, 0, 0, 0, 0, 0, 0, 0] 4 \<noteq> Inr 1
   \<and> parseBinaryProjectData ascii_decode [68, 68, 82, 77, 2, 0, 0, 0, 0, 0, 0, 0, 0, 0, 0, 0] = None
   \<and> parse_body ascii_decode [68, 68, 82, 77, 1, 0, 0, 0] = Inl RangeError
   \<and> parseBinaryProjectData ascii_decode [68, 68, 82, 77, 1, 0, 0, 0] = None
   \<and> parseBinaryProjectData ascii_decode (serializeProject ascii_encode example_project)
       = Some example_project
   \<and> take 4 (serializeProject ascii_encode example_project) = [68, 68, 82, 77]"
proof -
  let ?D = ascii_decode
  have a: "take 4 [74, 83, 79, 78, 1, 0, 0, 0] \<noteq> [68, 68, 82, 77 :: 8 word]" by simp
  have b: "getUint32 [68, 68, 82, 77, 2, 0, 0, 0, 0, 0, 0, 0, 0, 0, 0, 0] 4 \<noteq> Inr 1"
    by (simp add: parse_bad_inputs)
  have c: "parseBinaryProjectData ?D (serializeProject ascii_encode example_project)
      = Some example_project"
    using parse_body_serialized [OF example_project_wf] by (simp add: parseBinaryProjectData_def)
  from parseBinaryProjectData_total [of "[74, 83, 79, 78, 1, 0, 0, 0]" ?D] a
  have 1: "parseBinaryProjectData ?D [74, 83, 79, 78, 1, 0, 0, 0] = None" by blast
  from parseBinaryProjectData_total [of "[68, 68, 82, 77, 2, 0, 0, 0, 0, 0, 0, 0, 0, 0, 0, 0]" ?D] b
  have 2: "parseBinaryProjectData ?D [68, 68, 82, 77, 2, 0, 0, 0, 0, 0, 0, 0, 0, 0, 0, 0] = None"
    by blast
  from parseBinaryProjectData_total [of "[68, 68, 82, 77, 1, 0, 0, 0]" ?D]
    parse_bad_inputs(2) [of ?D]
  have 3: "parseBinaryProjectData ?D [68, 68, 82, 77, 1, 0, 0, 0] = None" by blast
  from parseBinaryProjectData_total [of "serializeProject ascii_encode example_project" ?D] c
  have 4: "take 4 (serializeProject ascii_encode example_project) = [68, 68, 82, 77]" by blast
  from a b c 1 2 3 4 parse_bad_inputs(2) [of ?D] show ?thesis by blast
qed

lemma length_incr [simp]: "length (incr h v) = length h"
  by (simp add: incr_def)

lemma length_incr32 [simp]: "length (incr32 h v) = length h"
  by (simp add: incr32_def split: option.splits)

lemma unat_byte_less: "unat (v :: 8 word) < 256"
  using unsigned_less [of v, where ?'a = nat] by simp

lemma incr32_nth:
  assumes "length h = 256"
  shows "incr32 h r ! unat v = h ! unat v + (if r = Some v then 1 else 0)"
proof (cases r)
  case None
  then show ?thesis by (simp add: incr32_def)
next
  case (Some b)
  have "unat b < length h" using assms unat_byte_less [of b] by simp
  then show ?thesis
    using Some by (auto simp: incr32_def nth_list_update word_unat_eq_iff)
qed

lemma sampled_fold:
  assumes "length hr = 256" and "length hg = 256" and "length hb = 256"
  shows "case foldl (sample_step data) (hr, hg, hb) offs of
           (hr', hg', hb') \<Rightarrow>
             length hr' = 256 \<and> length hg' = 256 \<and> length hb' = 256
             \<and> (\<forall>v. hr' ! unat v = hr ! unat v + of_nat (occurrences data offs v)
                  \<and> hg' ! unat v = hg ! unat v
                       + of_nat (occurrences data (map (\<lambda>off. off + 1) offs) v)
                  \<and> hb' ! unat v = hb ! unat v
                       + of_nat (occurrences data (map (\<lambda>off. off + 2) offs) v))"
  using assms
proof (induction offs arbitrary: hr hg hb)
  case Nil
  then show ?case by (simp add: occurrences_def)
next
  case (Cons off offs)
  let ?hr = "incr32 hr (byte_read data off)"
  let ?hg = "incr32 hg (byte_read data (off + 1))"
  let ?hb = "incr32 hb (byte_read data (off + 2))"
  have st: "sample_step data (hr, hg, hb) off = (?hr, ?hg, ?hb)"
    by (simp add: sample_step_def)
  have l: "length ?hr = 256" "length ?hg = 256" "length ?hb = 256"
    using Cons.prems by simp_all
  from Cons.IH [OF l] show ?case
    unfolding foldl_Cons st
    by (auto simp: incr32_nth [OF Cons.prems(1)] incr32_nth [OF Cons.prems(2)]
        incr32_nth [OF Cons.prems(3)] occurrences_def split: prod.splits)
qed

lemma sampled_no_data: "foldl (sample_step []) h offs = h"
  by (induction offs arbitrary: h)
    (simp_all add: sample_step_def byte_read_def incr32_def split: prod.splits)

lemma steps4_0 [simp]: "steps4 0 = []"
  by (simp add: steps4_def)

lemma sampled_empty:
  assumes "img_width img = 0 \<or> img_height img = 0 \<or> img_data img = []"
  shows "buildHistogramSampled img = (replicate 256 0, replicate 256 0, replicate 256 0)"
proof -
  from assms show ?thesis
  proof (elim disjE)
    assume "img_width img = 0"
    then have "sample_offsets (img_width img) (img_height img) = []"
      by (simp add: sample_offsets_def)
    then show ?thesis by (simp add: buildHistogramSampled_def)
  next
    assume "img_height img = 0"
    then have "sample_offsets (img_width img) (img_height img) = []"
      by (simp add: sample_offsets_def)
    then show ?thesis by (simp add: buildHistogramSampled_def)
  next
    assume "img_data img = []"
    then show ?thesis by (simp add: buildHistogramSampled_def sampled_no_data)
  qed
qed

lemma incr_mono: "length h = 256 \<Longrightarrow> h ! i \<le> incr h v ! i"
  using unat_byte_less [of v] by (cases "i = unat v") (simp_all add: incr_def)

lemma count_rgba_props:
  assumes "length hr = 256" and "length hg = 256" and "length hb = 256"
  shows "case count_rgba data (hr, hg, hb) of
           (hr', hg', hb') \<Rightarrow>
             length hr' = 256 \<and> length hg' = 256 \<and> length hb' = 256
             \<and> (\<forall>i < 256. hr ! i \<le> hr' ! i)"
  using assms
proof (induction data "(hr, hg, hb)" arbitrary: hr hg hb rule: count_rgba.induct)
  case (1 rr gg bb aa rest hr hg hb)
  have l: "length (incr hr rr) = 256" "length (incr hg gg) = 256" "length (incr hb bb) = 256"
    using "1.prems" by simp_all
  have m: "hr ! i \<le> incr hr rr ! i" if "i < 256" for i
    using "1.prems"(1) by (rule incr_mono)
  from "1.hyps" [OF l] m show ?case
    by (auto split: prod.splits intro: order_trans)
next
  case (2 rr gg bb hr hg hb)
  then show ?case by (simp add: incr_mono)
next
  case (3 rr gg hr hg hb)
  then show ?case by (simp add: incr_mono)
next
  case (4 rr hr hg hb)
  then show ?case by (simp add: incr_mono)
next
  case (5 hr hg hb)
  then show ?case by simp
qed

lemma count_rgba_first:
  assumes "length hr = 256" and "length hg = 256" and "length hb = 256" and "data \<noteq> []"
  shows "case count_rgba data (hr, hg, hb) of (hr', hg', hb') \<Rightarrow> 1 \<le> hr' ! unat (hd data)"
proof -
  from assms(4) obtain rr rest where d: "data = rr # rest" by (cases data) auto
  have u: "unat rr < 256" by (rule unat_byte_less)
  have i: "1 \<le> incr hr rr ! unat rr"
    using assms(1) u by (simp add: incr_def)
  show ?thesis
  proof (cases rest)
    case Nil
    with d i show ?thesis by simp
  next
    case (Cons gg r2)
    show ?thesis
    proof (cases r2)
      case Nil
      with d Cons i show ?thesis by simp
    next
      case (Cons bb r3)
      show ?thesis
      proof (cases r3)
        case Nil
        with d \<open>rest = gg # r2\<close> Cons i show ?thesis by simp
      next
        case (Cons aa r4)
        have l: "length (incr hr rr) = 256" "length (incr hg gg) = 256" "length (incr hb bb) = 256"
          using assms by simp_all
        from count_rgba_props [OF l, of r4] u i
        have "case count_rgba r4 (incr hr rr, incr hg gg, incr hb bb) of
                (hr', hg', hb') \<Rightarrow> 1 \<le> hr' ! unat rr"
          by (auto split: prod.splits intro: order_trans)
        with d \<open>rest = gg # r2\<close> \<open>r2 = bb # r3\<close> Cons show ?thesis by simp
      qed
    qed
  qed
qed

lemma foldl_max_ge:
  "a \<le> foldl (\<lambda>m i. max m (f i)) a xs
   \<and> (\<forall>i \<in> set xs. f i \<le> foldl (\<lambda>m i. max m (f i)) (a::nat) xs)"
proof (induction xs arbitrary: a)
  case Nil
  then show ?case by simp
next
  case (Cons x xs)
  from Cons [of "max a (f x)"] show ?case
    by (auto intro: order_trans [OF max.cobounded1] order_trans [OF max.cobounded2])
qed

lemma foldl_max_le:
  "a \<le> b \<Longrightarrow> \<forall>i \<in> set xs. f i \<le> b \<Longrightarrow> foldl (\<lambda>m i. max m (f i)) (a::nat) xs \<le> b"
  by (induction xs arbitrary: a) simp_all

lemma maxCount_ge:
  assumes "i < 256"
  shows "hr ! i \<le> maxCount_of hr hg hb" and "hg ! i \<le> maxCount_of hr hg hb"
    and "hb ! i \<le> maxCount_of hr hg hb"
proof -
  from assms have "i \<in> set [0..<256]" by simp
  with foldl_max_ge [of 0 "\<lambda>i. max (hr ! i) (max (hg ! i) (hb ! i))" "[0..<256]"]
  have "max (hr ! i) (max (hg ! i) (hb ! i)) \<le> maxCount_of hr hg hb"
    unfolding maxCount_of_def by blast
  then show "hr ! i \<le> maxCount_of hr hg hb" and "hg ! i \<le> maxCount_of hr hg hb"
    and "hb ! i \<le> maxCount_of hr hg hb"
    by simp_all
qed

lemma normalize_nth:
  assumes "i < length h" and "h ! i \<le> m" and "0 < m"
  shows "\<exists>q. normalize m h ! i = Fin q \<and> 0 \<le> q \<and> q \<le> 1"
  using assms by (simp add: normalize_def)

lemma maxCount_le:
  assumes "\<forall>i < 256. hr ! i \<le> b \<and> hg ! i \<le> b \<and> hb ! i \<le> b"
  shows "maxCount_of hr hg hb \<le> b"
  unfolding maxCount_of_def
  by (rule foldl_max_le) (use assms in auto)

lemma generateHistogram_nonempty:
  assumes "imageData \<noteq> []"
  shows "case generateHistogram imageData of
           (hr, hg, hb) \<Rightarrow>
             length hr = 256 \<and> length hg = 256 \<and> length hb = 256
             \<and> (\<forall>i < 256. (\<exists>q. hr ! i = Fin q \<and> 0 \<le> q \<and> q \<le> 1)
                         \<and> (\<exists>q. hg ! i = Fin q \<and> 0 \<le> q \<and> q \<le> 1)
                         \<and> (\<exists>q. hb ! i = Fin q \<and> 0 \<le> q \<and> q \<le> 1))"
proof -
  let ?z = "replicate 256 (0::nat)"
  obtain cr cg cb where c: "count_rgba imageData (?z, ?z, ?z) = (cr, cg, cb)"
    by (cases "count_rgba imageData (?z, ?z, ?z)") auto
  from count_rgba_props [of ?z ?z ?z imageData] c
  have l: "length cr = 256" "length cg = 256" "length cb = 256" by simp_all
  from count_rgba_first [of ?z ?z ?z imageData] assms c
  have "1 \<le> cr ! unat (hd imageData)" by simp
  also have "\<dots> \<le> maxCount_of cr cg cb"
    by (rule maxCount_ge(1)) (rule unat_byte_less)
  finally have m: "0 < maxCount_of cr cg cb" by simp
  have "(\<exists>q. normalize (maxCount_of cr cg cb) cr ! i = Fin q \<and> 0 \<le> q \<and> q \<le> 1)
      \<and> (\<exists>q. normalize (maxCount_of cr cg cb) cg ! i = Fin q \<and> 0 \<le> q \<and> q \<le> 1)
      \<and> (\<exists>q. normalize (maxCount_of cr cg cb) cb ! i = Fin q \<and> 0 \<le> q \<and> q \<le> 1)"
    if "i < 256" for i
    using that l m maxCount_ge(1) [OF that, where hr = cr and hg = cg and hb = cb]
      maxCount_ge(2) [OF that, where hr = cr and hg = cg and hb = cb]
      maxCount_ge(3) [OF that, where hr = cr and hg = cg and hb = cb]
    by (intro conjI normalize_nth) simp_all
  then show ?thesis
    using l by (simp add: generateHistogram_def c Let_def normalize_def)
qed

lemma generateHistogram_empty:
  "generateHistogram [] = (replicate 256 NaN, replicate 256 NaN, replicate 256 NaN)"
proof -
  let ?z = "replicate 256 (0::nat)"
  have "maxCount_of ?z ?z ?z \<le> 0" by (rule maxCount_le) simp
  then have m: "maxCount_of ?z ?z ?z = 0" by simp
  show ?thesis
    by (simp add: generateHistogram_def m normalize_def inf_signed_def)
qed

lemma generateHistogram_two_pixels:
  "fst (generateHistogram [10, 20, 30, 255, 10, 20, 30, 255]) ! 10 = Fin 1"
proof -
  let ?z = "replicate 256 (0::nat)"
  let ?r = "?z[10 := Suc (Suc 0)]"
  let ?g = "?z[20 := Suc (Suc 0)]"
  let ?b = "?z[30 := Suc (Suc 0)]"
  have c: "count_rgba [10, 20, 30, 255, 10, 20, 30, 255] (?z, ?z, ?z) = (?r, ?g, ?b)"
    by (simp add: incr_def)
  have "maxCount_of ?r ?g ?b \<le> 2"
    by (rule maxCount_le) (simp add: nth_list_update)
  moreover have "?r ! 10 \<le> maxCount_of ?r ?g ?b"
    by (rule maxCount_ge(1)) simp
  moreover have "?r ! 10 = 2" by simp
  ultimately have m: "maxCount_of ?r ?g ?b = 2" by simp
  show ?thesis
    unfolding generateHistogram_def c by (simp add: m normalize_def)
qed


lemma tool_cases: "t = Dodge \<or> t = Erase"
  by (cases t) simp_all














lemma stamp_stops_ok:
  "\<forall>st \<in> set (fc_stops (stamp_call b x y R)).
      0 \<le> fst st \<and> fst st \<le> 1 \<and> 0 \<le> snd st \<and> snd st \<le> 1"
  by (simp add: stamp_call_def Let_def)





lemma precompute1_zero_time: "precompute1 ilford_multigrade zero_time_cexp = Inr zero_time_pre"
  by (simp add: precompute1_def ilford_multigrade_def zero_time_cexp_def zero_time_pre_def
      gradeParams_at_def gp_def LOG10E_def inf_signed_def Let_def)

lemma precompute1_negative_time:
  "precompute1 ilford_multigrade negative_time_cexp = Inr negative_time_pre"
  by (simp add: precompute1_def ilford_multigrade_def negative_time_cexp_def negative_time_pre_def
      gradeParams_at_def gp_def LOG10E_def inf_signed_def Let_def)

lemma Dexcess_zero_time:
  "Dexcess_of (6 / 100) (199 / 100) (makeSigmoidLUT N) (Fin 0) j zero_time_pre = Fin 0"
  by (simp add: Dexcess_of_def zero_time_pre_def mask_value_def logMask_of_def js_gt_def js_sub_def
      inf_signed_def sigmoid_def Let_def)

lemma Dexcess_negative_time:
  "Dexcess_of (6 / 100) (199 / 100) (makeSigmoidLUT 2048) (Fin 0) j negative_time_pre
     = Fin (199 / 100 * (1 / (1 + exp 12)))"
  by (simp add: Dexcess_of_def negative_time_pre_def mask_value_def logMask_of_def js_gt_def js_sub_def
      inf_signed_def js_ge_def sigmoid_def typed_at_def Let_def
      lut_length_make lut_first)

lemma precompute_zero_negative:
  "precompute ilford_multigrade [zero_time_cexp] = Inr [zero_time_pre]"
  "precompute ilford_multigrade [negative_time_cexp] = Inr [negative_time_pre]"
  by (simp_all add: precompute_Inr precompute1_zero_time precompute1_negative_time)

lemma Dsum_zero_time:
  "Dsum_pixel ilford_multigrade (makeSigmoidLUT 2048) [0] [zero_time_pre] 0 = Fin 0"
proof -
  have t: "typed_at [0] (int 0) = Fin 0" by (simp add: typed_at_def)
  have c: "contrib (paper_Dmin ilford_multigrade)
             (paper_Dmax ilford_multigrade - paper_Dmin ilford_multigrade)
             (makeSigmoidLUT 2048) (Fin 0) 0 zero_time_pre = 0"
    unfolding ilford_span unfolding ilford_Dmin contrib_def Dexcess_zero_time by simp
  show ?thesis
    unfolding Dsum_pixel_eq [OF ilford_valid] t
    using ilford_valid by (simp add: c)
qed

lemma lut0_bounds: "0 < 1 / (1 + exp (12::real))" "1 / (1 + exp (12::real)) \<le> 1 / 4097"
proof -
  have p: "0 < 1 + exp (12::real)" by (simp add: add_pos_pos)
  then show "0 < 1 / (1 + exp (12::real))" by simp
  have "(4097::real) \<le> 1 + exp 12" using exp_12_ge by simp
  then show "1 / (1 + exp (12::real)) \<le> 1 / 4097"
    by (intro divide_left_mono) simp_all
qed

lemma Dsum_negative_time:
  "Dsum_pixel ilford_multigrade (makeSigmoidLUT 2048) [0] [negative_time_pre] 0
     = Fin (199 / 100 * (1 / (1 + exp 12)))"
proof -
  have t: "typed_at [0] (int 0) = Fin 0" by (simp add: typed_at_def)
  define q :: real where "q = 1 / (1 + exp 12)"
  have q: "0 < q" "q \<le> 1 / 4097" unfolding q_def by (rule lut0_bounds)+
  have c: "contrib (paper_Dmin ilford_multigrade)
             (paper_Dmax ilford_multigrade - paper_Dmin ilford_multigrade)
             (makeSigmoidLUT 2048) (Fin 0) 0 negative_time_pre = 199 / 100 * q"
    unfolding ilford_span unfolding ilford_Dmin contrib_def Dexcess_negative_time q_def [symmetric]
    using q by simp
  have m: "min (199 / 100) (199 / 100 * q) = 199 / 100 * q" using q by simp
  have "Dsum_pixel ilford_multigrade (makeSigmoidLUT 2048) [0] [negative_time_pre] 0
          = Fin (199 / 100 * q)"
    unfolding Dsum_pixel_eq [OF ilford_valid] t
    unfolding list.map sum_list.Cons sum_list.Nil unfolding c unfolding ilford_span
    using q by (simp add: min_def)
  then show ?thesis unfolding q_def .
qed

lemma processImage_zero_time:
  "processImage (white_state [zero_time_cexp]) = Inr (Some [247, 252, 255, 255])"
proof -
  from Dfinal_pixel_eq [OF ilford_valid Dsum_zero_time] ilford_valid
  have "Dfinal_pixel ilford_multigrade (makeSigmoidLUT 2048) [0] [zero_time_pre] 0
      = Fin (paper_Dmin ilford_multigrade)"
    by simp
  then show ?thesis
    unfolding processImage_def white_state_def
    by (simp add: precompute1_zero_time renderPixel_def logTrans_white color_white)
qed

lemma color_near_white:
  assumes "0 < q" "q \<le> 1 / 4097"
  shows "color_of_Dfinal ilford_multigrade (Fin (6 / 100 + 199 / 100 * q)) = [247, 252, 255, 255]"
proof -
  have b: "255 \<le> 255 * (1 - q) + 1 / 2" "255 * (1 - q) + 1 / 2 < 255 + 1"
    using assms by argo+
  have fl: "\<lfloor>255 * (1 - q) + 1 / 2\<rfloor> = 255"
    using b by (intro floor_unique) simp_all
  have fr: "js_max (Fin 0) (js_min (Fin 1) (Fin q)) = Fin q"
    using assms by (simp add: js_max_def js_min_def is_NaN_def js_gt_def)
  have d: "js_div (js_sub (Fin (6 / 100 + 199 / 100 * q)) (Fin (6 / 100))) (Fin (199 / 100)) = Fin q"
    by (simp add: js_sub_def)
  have v: "js_round (js_mul (Fin 255) (js_sub (Fin 1) (Fin q))) = Fin 255"
    using fl by (simp add: js_sub_def)
  show ?thesis
    unfolding color_of_Dfinal_def Let_def ilford_span unfolding ilford_Dmin d fr v
    apply (simp add: js_max_def js_min_def is_NaN_def js_gt_def js_sub_def)
    apply (simp add: ilford_multigrade_def rgb_def wrap_int32_def clamp_u8_def)
    done
qed

lemma processImage_negative_time:
  "processImage (white_state [negative_time_cexp]) = Inr (Some [247, 252, 255, 255])"
proof -
  define q :: real where "q = 1 / (1 + exp 12)"
  have q: "0 < q" "q \<le> 1 / 4097" unfolding q_def by (rule lut0_bounds)+
  have m: "min (6 / 100 + 199 / 100 * q) (205 / 100) = 6 / 100 + 199 / 100 * q"
    using q by (simp add: min_def)
  from Dfinal_pixel_eq [OF ilford_valid Dsum_negative_time]
  have D: "Dfinal_pixel ilford_multigrade (makeSigmoidLUT 2048) [0] [negative_time_pre] 0
      = Fin (6 / 100 + 199 / 100 * q)"
    unfolding ilford_Dmin ilford_Dmax q_def [symmetric] m .
  have r: "renderPixel ilford_multigrade (makeSigmoidLUT 2048) [0] [negative_time_pre] 0
      = [247, 252, 255, 255]"
    unfolding renderPixel_def D by (rule color_near_white [OF q])
  show ?thesis
    unfolding processImage_def white_state_def
    by (simp add: precompute1_negative_time logTrans_white r)
qed

lemma exposure_uniforms_zero_negative:
  "exposure_uniforms ilford_multigrade zero_time_exposure
     = Inr (Fin (- 6), 22 / 10, Fin (ln 16 / ln 10), 0)"
  "exposure_uniforms ilford_multigrade negative_time_exposure
     = Inr (Fin (- 6), 22 / 10, Fin (ln 16 / ln 10), 0)"
proof -
  have m: "js_max (Fin (1 / 1000000)) (Fin 0) = Fin (1 / 1000000)"
    "js_max (Fin (1 / 1000000)) (Fin (- 1)) = Fin (1 / 1000000)"
    by (simp_all add: js_max_def is_NaN_def js_gt_def)
  have l: "js_log10 (Fin (1 / 1000000)) = Fin (- 6)"
    by (simp add: js_log10_def ln_millionth)
  show "exposure_uniforms ilford_multigrade zero_time_exposure
     = Inr (Fin (- 6), 22 / 10, Fin (ln 16 / ln 10), 0)"
    unfolding exposure_uniforms_def zero_time_exposure_def
    by (simp add: ilford_multigrade_def gradeParams_at_def gp_def m l) (simp add: js_log10_def)
  show "exposure_uniforms ilford_multigrade negative_time_exposure
     = Inr (Fin (- 6), 22 / 10, Fin (ln 16 / ln 10), 0)"
    unfolding exposure_uniforms_def negative_time_exposure_def
    by (simp add: ilford_multigrade_def gradeParams_at_def gp_def m l) (simp add: js_log10_def)
qed

lemma single_extra_zero_negative:
  "single_extra white_engine ilford_multigrade (0, 0) zero_time_exposure = 0"
  "single_extra white_engine ilford_multigrade (0, 0) negative_time_exposure = 0"
proof -
  have "22 / 10 * (- 6 - e) \<le> - 12" if "0 \<le> e" for e :: real
    using that by (simp add: algebra_simps)
  from this [of "ln 16 / ln 10"] log10_16_bounds
  have x: "22 / 10 * (- 6 - ln 16 / ln (10::real)) \<le> - 12" by blast
  have f: "fetchSigmoid (lut_unit white_engine) (22 / 10 * (- 6 - ln 16 / ln 10)) = 0"
    unfolding lut_unit_def maxExposures_def white_engine_def
    using fetchSigmoid_low [OF _ x, of 4096] by simp
  have m: "uploadMask1 zero_time_exposure = Inr None" "uploadMask1 negative_time_exposure = Inr None"
    by (simp_all add: uploadMask1_def zero_time_exposure_def negative_time_exposure_def)
  show "single_extra white_engine ilford_multigrade (0, 0) zero_time_exposure = 0"
    unfolding single_extra_def exposure_uniforms_zero_negative m white_logTrans
    by (simp only: sum.case prod.case extra_of_single_nomask f)
  show "single_extra white_engine ilford_multigrade (0, 0) negative_time_exposure = 0"
    unfolding single_extra_def exposure_uniforms_zero_negative m white_logTrans
    by (simp only: sum.case prod.case extra_of_single_nomask f)
qed

lemma renderable_zero_negative:
  "gpu_renderable ilford_multigrade [zero_time_exposure]"
  "gpu_renderable ilford_multigrade [negative_time_exposure]"
  by (simp_all add: gpu_renderable_def maxExposures_def finite_time_def valid_grade_def mask_ok_def
      zero_time_exposure_def negative_time_exposure_def ilford_multigrade_def)

lemma gpu_density_zero_negative:
  "gpu_density white_engine ilford_multigrade [zero_time_exposure] (0, 0) = Inr (Some (6 / 100))"
  "gpu_density white_engine ilford_multigrade [negative_time_exposure] (0, 0) = Inr (Some (6 / 100))"
  unfolding gpu_density_sum [OF renderable_zero_negative(1)]
    gpu_density_sum [OF renderable_zero_negative(2)]
  by (simp_all add: maxExposures_def single_extra_zero_negative ilford_Dmin ilford_Dmax)

text \<open>
  C4. The CPU loop takes the logarithm of the exposure time as it is: for a time of 0 the
  precomputed logTime is -Infinity, for a time of -1 it is NaN, where GPUEngine.render
  passes log10 (max 1e-6 time) = -6 to the shader for both. Nothing is raised on either
  path and the density stays finite and in range: for a one-pixel negative of
  transmittance 1 on Ilford Multigrade at grade 00, the CPU loop adds 0 for time 0 and
  1.99 / (1 + e^12) > 0 for time -1 (the NaN index reads entry 0 of the table), the shader
  gives Dmin = 0.06 for both, and processImage writes the paper-white pixel.
\<close>

theorem cpu_loop_takes_log_of_raw_time:
  "map_sum id pre_logTime (precompute1 ilford_multigrade zero_time_cexp) = Inr NInf
   \<and> map_sum id pre_logTime (precompute1 ilford_multigrade negative_time_cexp) = Inr NaN
   \<and> map_sum id fst (exposure_uniforms ilford_multigrade zero_time_exposure) = Inr (Fin (- 6))
   \<and> map_sum id fst (exposure_uniforms ilford_multigrade negative_time_exposure) = Inr (Fin (- 6))
   \<and> precompute ilford_multigrade [zero_time_cexp] = Inr [zero_time_pre]
   \<and> precompute ilford_multigrade [negative_time_cexp] = Inr [negative_time_pre]
   \<and> Dsum_pixel ilford_multigrade (makeSigmoidLUT 2048) [0] [zero_time_pre] 0 = Fin 0
   \<and> Dsum_pixel ilford_multigrade (makeSigmoidLUT 2048) [0] [negative_time_pre] 0
       = Fin (199 / 100 * (1 / (1 + exp 12)))
   \<and> 0 < 199 / 100 * (1 / (1 + exp (12::real)))
   \<and> gpu_density white_engine ilford_multigrade [zero_time_exposure] (0, 0) = Inr (Some (6 / 100))
   \<and> gpu_density white_engine ilford_multigrade [negative_time_exposure] (0, 0)
       = Inr (Some (6 / 100))
   \<and> processImage (white_state [zero_time_cexp]) = Inr (Some [247, 252, 255, 255])
   \<and> processImage (white_state [negative_time_cexp]) = Inr (Some [247, 252, 255, 255])"
proof -
  have a: "map_sum id pre_logTime (precompute1 ilford_multigrade zero_time_cexp) = Inr NInf"
    unfolding precompute1_zero_time by (simp add: zero_time_pre_def)
  have b: "map_sum id pre_logTime (precompute1 ilford_multigrade negative_time_cexp) = Inr NaN"
    unfolding precompute1_negative_time by (simp add: negative_time_pre_def)
  have c: "map_sum id fst (exposure_uniforms ilford_multigrade zero_time_exposure) = Inr (Fin (- 6))"
    "map_sum id fst (exposure_uniforms ilford_multigrade negative_time_exposure) = Inr (Fin (- 6))"
    unfolding exposure_uniforms_zero_negative by simp_all
  have p: "0 < 199 / 100 * (1 / (1 + exp (12::real)))"
    using lut0_bounds(1) by simp
  from a b c p precompute_zero_negative Dsum_zero_time Dsum_negative_time
    gpu_density_zero_negative processImage_zero_time processImage_negative_time
  show ?thesis by blast
qed

lemma steps4_filter: "steps4 n = filter (\<lambda>i. i mod 4 = 0) [0..<n]"
proof (induction n)
  case 0
  then show ?case by (simp add: steps4_def)
next
  case (Suc n)
  have s: "steps4 (Suc n) = (if n mod 4 = 0 then steps4 n @ [n] else steps4 n)"
  proof (cases "n mod 4 = 0")
    case True
    then obtain q where q: "n = 4 * q" by (auto simp: mod_eq_0_iff_dvd elim: dvdE)
    have "(Suc n + 3) div 4 = Suc q" unfolding q by simp
    moreover have "(n + 3) div 4 = q" unfolding q by simp
    ultimately show ?thesis using True by (simp add: steps4_def q)
  next
    case False
    have "(Suc n + 3) div 4 = (n + 3) div 4"
      using False by presburger
    then show ?thesis using False by (simp add: steps4_def)
  qed
  show ?case unfolding s using Suc by simp
qed

lemma length_filter_concat:
  "length (filter P (concat xss)) = sum_list (map (\<lambda>xs. length (filter P xs)) xss)"
  by (induction xss) simp_all

lemma sum_list_filter_if:
  "sum_list (map f (filter p xs)) = sum_list (map (\<lambda>x. if p x then f x else (0::nat)) xs)"
  by (induction xs) simp_all

lemma length_filter_map_filter:
  "length (filter Q (map g (filter p xs))) = length (filter (\<lambda>x. p x \<and> Q (g x)) xs)"
  by (induction xs) simp_all

lemma grid_count:
  "length (filter Q (concat (map (\<lambda>y. map (g y) (filter p xs)) (filter p ys))))
   = length (filter (\<lambda>(y, x). y mod 4 = 0 \<and> x mod 4 = 0 \<and> Q (g y x)) (List.product ys xs))"
  if "p = (\<lambda>i. i mod 4 = (0::nat))"
proof -
  have "length (filter Q (concat (map (\<lambda>y. map (g y) (filter p xs)) (filter p ys))))
      = sum_list (map (\<lambda>y. if p y then length (filter (\<lambda>x. p x \<and> Q (g y x)) xs) else 0) ys)"
    by (simp add: length_filter_concat comp_def length_filter_map_filter sum_list_filter_if)
  also have "\<dots> = length (filter (\<lambda>(y, x). y mod 4 = 0 \<and> x mod 4 = 0 \<and> Q (g y x)) (List.product ys xs))"
    unfolding that
    by (induction ys) (simp_all add: filter_map comp_def)
  finally show ?thesis .
qed

lemma sample_offsets_grid:
  assumes "w \<le> 2 ^ 29"
  shows "sample_offsets w h
         = concat (map (\<lambda>y. map (\<lambda>x. int (4 * (y * w + x))) (filter (\<lambda>i. i mod 4 = 0) [0..<w]))
                     (filter (\<lambda>i. i mod 4 = 0) [0..<h]))"
proof -
  have "wrap_int32 (int x * 4) = int x * 4" if "x < w" for x
  proof -
    from that assms have "int x * 4 < 2 ^ 31" by simp
    then show ?thesis by (simp add: wrap_int32_def Let_def)
  qed
  then have m: "map (\<lambda>x. int (y * w * 4) + wrap_int32 (int x * 4)) (filter (\<lambda>i. i mod 4 = 0) [0..<w])
           = map (\<lambda>x. int (4 * (y * w + x))) (filter (\<lambda>i. i mod 4 = 0) [0..<w])" for y
    by (intro map_cong) (auto simp: algebra_simps)
  show ?thesis
    unfolding sample_offsets_def steps4_filter m ..
qed

lemma occurrences_grid:
  assumes "img_width img \<le> 2 ^ 29"
  shows "occurrences (img_data img)
           (map (\<lambda>off. off + int c) (sample_offsets (img_width img) (img_height img))) v
         = sampled_count img c v"
proof -
  have "map (\<lambda>off. off + int c) (sample_offsets (img_width img) (img_height img))
      = concat (map (\<lambda>y. map (\<lambda>x. int (4 * (y * img_width img + x) + c))
                               (filter (\<lambda>i. i mod 4 = 0) [0..<img_width img]))
                  (filter (\<lambda>i. i mod 4 = 0) [0..<img_height img]))"
    unfolding sample_offsets_grid [OF assms]
    by (simp add: map_concat comp_def)
  then show ?thesis
    unfolding occurrences_def sampled_count_def
    by (simp only: grid_count [OF refl])
qed

lemma count_shift:
  "length (filter (\<lambda>i. (i + k) mod 4 = c \<and> (x # xs) ! i = v) [0..<length (x # xs)])
   = (if k mod 4 = c \<and> x = v then 1 else 0)
     + length (filter (\<lambda>i. (i + Suc k) mod 4 = c \<and> xs ! i = v) [0..<length xs])"
proof -
  have "[0..<length (x # xs)] = 0 # map Suc [0..<length xs]"
    by (simp add: upt_conv_Cons map_Suc_upt del: upt_Suc)
  then show ?thesis by (simp add: filter_map comp_def)
qed

lemma channel_count_Cons4:
  "channel_count (rr # gg # bb # aa # rest) c v
   = (if c = 0 \<and> rr = v then 1 else 0) + (if c = 1 \<and> gg = v then 1 else 0)
     + (if c = 2 \<and> bb = v then 1 else 0) + (if c = 3 \<and> aa = v then 1 else 0)
     + channel_count rest c v"
proof -
  define C where "C k xs = length (filter (\<lambda>i. (i + k) mod 4 = c \<and> xs ! i = v) [0..<length xs])"
    for k :: nat and xs :: "8 word list"
  have sh: "C k (x # xs) = (if k mod 4 = c \<and> x = v then 1 else 0) + C (Suc k) xs" for k x xs
    unfolding C_def by (rule count_shift)
  have c0: "channel_count xs c v = C 0 xs" for xs
    by (simp add: channel_count_def C_def)
  have c4: "C (Suc (Suc (Suc (Suc 0)))) xs = C 0 xs" for xs
    by (simp add: C_def)
  have "C 0 (rr # gg # bb # aa # rest)
      = (if 0 mod 4 = c \<and> rr = v then 1 else 0) + ((if Suc 0 mod 4 = c \<and> gg = v then 1 else 0)
        + ((if Suc (Suc 0) mod 4 = c \<and> bb = v then 1 else 0)
        + ((if Suc (Suc (Suc 0)) mod 4 = c \<and> aa = v then 1 else 0) + C 0 rest)))"
    by (simp only: sh c4)
  also have "\<dots> = (if c = 0 \<and> rr = v then 1 else 0) + (if c = 1 \<and> gg = v then 1 else 0)
     + (if c = 2 \<and> bb = v then 1 else 0) + (if c = 3 \<and> aa = v then 1 else 0) + C 0 rest"
    by (simp add: eq_commute [of _ c] numeral_3_eq_3 [symmetric] numeral_2_eq_2 [symmetric])
  finally show ?thesis unfolding c0 .
qed

lemma channel_count_short:
  "channel_count [rr, gg, bb] c v
   = (if c = 0 \<and> rr = v then 1 else 0) + (if c = 1 \<and> gg = v then 1 else 0)
     + (if c = 2 \<and> bb = v then 1 else 0)"
  "channel_count [rr, gg] c v
   = (if c = 0 \<and> rr = v then 1 else 0) + (if c = 1 \<and> gg = v then 1 else 0)"
  "channel_count [rr] c v = (if c = 0 \<and> rr = v then 1 else 0)"
  "channel_count [] c v = 0"
  by (auto simp: channel_count_def)

lemma incr_nth:
  assumes "length h = 256"
  shows "incr h r ! unat v = h ! unat v + (if r = v then 1 else 0)"
proof -
  have "unat r < length h" using assms unat_byte_less [of r] by simp
  then show ?thesis
    by (auto simp: incr_def nth_list_update word_unat_eq_iff)
qed

lemma count_rgba_counts:
  assumes "length hr = 256" and "length hg = 256" and "length hb = 256"
  shows "case count_rgba data (hr, hg, hb) of
           (hr', hg', hb') \<Rightarrow>
             length hr' = 256 \<and> length hg' = 256 \<and> length hb' = 256
             \<and> (\<forall>v. hr' ! unat v = hr ! unat v + channel_count data 0 v
                    \<and> hg' ! unat v = hg ! unat v + channel_count data 1 v
                    \<and> hb' ! unat v = hb ! unat v + channel_count data 2 v)"
  using assms
proof (induction data "(hr, hg, hb)" arbitrary: hr hg hb rule: count_rgba.induct)
  case (1 rr gg bb aa rest hr hg hb)
  have l: "length (incr hr rr) = 256" "length (incr hg gg) = 256" "length (incr hb bb) = 256"
    using "1.prems" by simp_all
  from "1.hyps" [OF l] show ?case
    by (auto simp: channel_count_Cons4 incr_nth [OF "1.prems"(1)] incr_nth [OF "1.prems"(2)]
        incr_nth [OF "1.prems"(3)] split: prod.splits)
next
  case (2 rr gg bb hr hg hb)
  then show ?case by (auto simp: channel_count_short incr_nth)
next
  case (3 rr gg hr hg hb)
  then show ?case by (auto simp: channel_count_short incr_nth)
next
  case (4 rr hr hg hb)
  then show ?case by (auto simp: channel_count_short incr_nth)
next
  case (5 hr hg hb)
  then show ?case by (simp add: channel_count_short)
qed

lemma foldl_max_attained:
  "foldl (\<lambda>m i. max m (f i)) (a::nat) xs = a
   \<or> (\<exists>i \<in> set xs. foldl (\<lambda>m i. max m (f i)) a xs = f i)"
proof (induction xs arbitrary: a)
  case Nil
  then show ?case by simp
next
  case (Cons x xs)
  from Cons [of "max a (f x)"] show ?case
    by (auto simp: max_def split: if_splits)
qed

lemma maxCount_attained:
  assumes "0 < maxCount_of hr hg hb"
  shows "\<exists>i < 256. hr ! i = maxCount_of hr hg hb \<or> hg ! i = maxCount_of hr hg hb
                  \<or> hb ! i = maxCount_of hr hg hb"
proof -
  from foldl_max_attained [of "\<lambda>i. max (hr ! i) (max (hg ! i) (hb ! i))" 0 "[0..<256]"] assms
  obtain i where "i < 256" "maxCount_of hr hg hb = max (hr ! i) (max (hg ! i) (hb ! i))"
    unfolding maxCount_of_def by auto
  then show ?thesis by (intro exI [of _ i]) (auto simp: max_def split: if_splits)
qed

lemma generateHistogram_exact:
  assumes "imageData \<noteq> []"
  shows "\<exists>M. 0 < M
           \<and> (\<forall>v c. c < 3 \<longrightarrow> channel_count imageData c v \<le> M)
           \<and> (\<exists>v c. c < 3 \<and> channel_count imageData c v = M)
           \<and> (case generateHistogram imageData of
                  (hr, hg, hb) \<Rightarrow>
                    length hr = 256 \<and> length hg = 256 \<and> length hb = 256
                    \<and> (\<forall>v. hr ! unat v = Fin (real (channel_count imageData 0 v) / real M)
                           \<and> hg ! unat v = Fin (real (channel_count imageData 1 v) / real M)
                           \<and> hb ! unat v = Fin (real (channel_count imageData 2 v) / real M)))"
proof -
  let ?z = "replicate 256 (0::nat)"
  obtain cr cg cb where c: "count_rgba imageData (?z, ?z, ?z) = (cr, cg, cb)"
    by (cases "count_rgba imageData (?z, ?z, ?z)") auto
  from count_rgba_counts [of ?z ?z ?z imageData] c unat_byte_less
  have l: "length cr = 256" "length cg = 256" "length cb = 256"
    and n: "\<And>v. cr ! unat v = channel_count imageData 0 v"
      "\<And>v. cg ! unat v = channel_count imageData 1 v"
      "\<And>v. cb ! unat v = channel_count imageData 2 v"
    by simp_all
  let ?M = "maxCount_of cr cg cb"
  from count_rgba_first [of ?z ?z ?z imageData] assms c
  have "1 \<le> cr ! unat (hd imageData)" by simp
  also have "\<dots> \<le> ?M"
    by (rule maxCount_ge(1)) (rule unat_byte_less)
  finally have m: "0 < ?M" by simp
  have le3: "channel_count imageData 0 v \<le> ?M" "channel_count imageData 1 v \<le> ?M"
    "channel_count imageData 2 v \<le> ?M" for v
    using maxCount_ge [OF unat_byte_less [of v], where hr = cr and hg = cg and hb = cb]
    unfolding n by simp_all
  have le: "channel_count imageData c v \<le> ?M" if "c < 3" for c v
  proof -
    from that consider "c = 0" | "c = 1" | "c = 2" by linarith
    then show ?thesis using le3 [of v] by cases (simp_all only:)
  qed
  from maxCount_attained [OF m] obtain i where i: "i < 256"
    "cr ! i = ?M \<or> cg ! i = ?M \<or> cb ! i = ?M" by blast
  define w :: "8 word" where "w = of_nat i"
  have w: "unat w = i" using i(1) by (simp add: w_def unat_of_nat)
  have at: "\<exists>v c. c < 3 \<and> channel_count imageData c v = ?M"
  proof -
    from i(2) consider "channel_count imageData 0 w = ?M" | "channel_count imageData 1 w = ?M"
      | "channel_count imageData 2 w = ?M"
      unfolding w [symmetric] n by blast
    then show ?thesis
    proof cases
      case 1
      then show ?thesis by (intro exI [of _ w] exI [of _ 0]) simp
    next
      case 2
      then show ?thesis by (intro exI [of _ w] exI [of _ 1]) simp
    next
      case 3
      then show ?thesis by (intro exI [of _ w] exI [of _ 2]) simp
    qed
  qed
  have vals: "normalize ?M cr ! unat v = Fin (real (channel_count imageData 0 v) / real ?M)"
    "normalize ?M cg ! unat v = Fin (real (channel_count imageData 1 v) / real ?M)"
    "normalize ?M cb ! unat v = Fin (real (channel_count imageData 2 v) / real ?M)" for v
    using l m unat_byte_less [of v] by (simp_all add: normalize_def n)
  show ?thesis
    apply (rule exI [of _ ?M])
    using m le at l vals by (simp add: generateHistogram_def c Let_def normalize_def)
qed

text \<open>
  C9 (as amended). _buildHistogramSampled produces, for every image, three lists of 256
  counters (modulo 2^32) and has no error case: the counter of a byte value is the number of
  sampled offsets whose channel holds that value, which for a width of at most 2^29 is the
  number of pixels on every 4th row and every 4th column with that value in the channel;
  all counters are zero for an empty image. generateHistogram of src/script.js produces,
  for every non-empty buffer, three lists of 256 numbers: the number of pixels having the
  value in the channel, divided by the largest such number over the three channels.
\<close>

theorem histogram_builders:
  "(case buildHistogramSampled img of
      (hr, hg, hb) \<Rightarrow>
        length hr = 256 \<and> length hg = 256 \<and> length hb = 256
        \<and> (\<forall>v. hr ! unat v
                 = of_nat (occurrences (img_data img)
                             (sample_offsets (img_width img) (img_height img)) v)
             \<and> hg ! unat v
                 = of_nat (occurrences (img_data img)
                             (map (\<lambda>off. off + 1) (sample_offsets (img_width img) (img_height img))) v)
             \<and> hb ! unat v
                 = of_nat (occurrences (img_data img)
                             (map (\<lambda>off. off + 2) (sample_offsets (img_width img) (img_height img))) v))
        \<and> (img_width img \<le> 2 ^ 29
             \<longrightarrow> (\<forall>v. hr ! unat v = of_nat (sampled_count img 0 v)
                      \<and> hg ! unat v = of_nat (sampled_count img 1 v)
                      \<and> hb ! unat v = of_nat (sampled_count img 2 v))))
   \<and> (img_width img = 0 \<or> img_height img = 0 \<or> img_data img = []
        \<longrightarrow> buildHistogramSampled img = (replicate 256 0, replicate 256 0, replicate 256 0))
   \<and> (imageData \<noteq> []
        \<longrightarrow> (\<exists>M. 0 < M
               \<and> (\<forall>v c. c < 3 \<longrightarrow> channel_count imageData c v \<le> M)
               \<and> (\<exists>v c. c < 3 \<and> channel_count imageData c v = M)
               \<and> (case generateHistogram imageData of
                      (hr, hg, hb) \<Rightarrow>
                        length hr = 256 \<and> length hg = 256 \<and> length hb = 256
                        \<and> (\<forall>v. hr ! unat v = Fin (real (channel_count imageData 0 v) / real M)
                               \<and> hg ! unat v = Fin (real (channel_count imageData 1 v) / real M)
                               \<and> hb ! unat v = Fin (real (channel_count imageData 2 v) / real M)))))"
proof -
  let ?z = "replicate 256 (0 :: 32 word)"
  let ?offs = "sample_offsets (img_width img) (img_height img)"
  obtain hr hg hb where h: "buildHistogramSampled img = (hr, hg, hb)"
    by (cases "buildHistogramSampled img") auto
  from sampled_fold [of ?z ?z ?z "img_data img" ?offs] unat_byte_less h
  have l: "length hr = 256" "length hg = 256" "length hb = 256"
    and o: "\<And>v. hr ! unat v = of_nat (occurrences (img_data img) ?offs v)"
      "\<And>v. hg ! unat v = of_nat (occurrences (img_data img) (map (\<lambda>off. off + 1) ?offs) v)"
      "\<And>v. hb ! unat v = of_nat (occurrences (img_data img) (map (\<lambda>off. off + 2) ?offs) v)"
    by (simp_all add: buildHistogramSampled_def)
  have g: "hr ! unat v = of_nat (sampled_count img 0 v)
         \<and> hg ! unat v = of_nat (sampled_count img 1 v)
         \<and> hb ! unat v = of_nat (sampled_count img 2 v)" if "img_width img \<le> 2 ^ 29" for v
    using occurrences_grid [OF that, of 0 v] occurrences_grid [OF that, of 1 v]
      occurrences_grid [OF that, of 2 v]
    unfolding o by simp
  have A: "case buildHistogramSampled img of
      (hr, hg, hb) \<Rightarrow>
        length hr = 256 \<and> length hg = 256 \<and> length hb = 256
        \<and> (\<forall>v. hr ! unat v
                 = of_nat (occurrences (img_data img)
                             (sample_offsets (img_width img) (img_height img)) v)
             \<and> hg ! unat v
                 = of_nat (occurrences (img_data img)
                             (map (\<lambda>off. off + 1) (sample_offsets (img_width img) (img_height img))) v)
             \<and> hb ! unat v
                 = of_nat (occurrences (img_data img)
                             (map (\<lambda>off. off + 2) (sample_offsets (img_width img) (img_height img))) v))
        \<and> (img_width img \<le> 2 ^ 29
             \<longrightarrow> (\<forall>v. hr ! unat v = of_nat (sampled_count img 0 v)
                      \<and> hg ! unat v = of_nat (sampled_count img 1 v)
                      \<and> hb ! unat v = of_nat (sampled_count img 2 v)))"
    unfolding h using l o g by simp
  from A sampled_empty [of img] generateHistogram_exact [of imageData] show ?thesis
    by blast
qed

lemma strip_counts:
  "sampled_count strip_image 0 10 = 2" "sampled_count strip_image 0 1 = 0"
  "sampled_count strip_image 1 20 = 1" "sampled_count strip_image 1 21 = 1"
  "sampled_count strip_image 2 30 = 2" "sampled_count strip_image 2 255 = 0"
  by code_simp+

lemma two_pixel_counts:
  "channel_count [10, 20, 30, 255, 10, 21, 31, 255] c v
   = (if c = 0 \<and> v = 10 then 2 else 0) + (if c = 1 \<and> v = 20 then 1 else 0)
     + (if c = 1 \<and> v = 21 then 1 else 0) + (if c = 2 \<and> v = 30 then 1 else 0)
     + (if c = 2 \<and> v = 31 then 1 else 0) + (if c = 3 \<and> v = 255 then 2 else 0)"
  unfolding channel_count_Cons4 channel_count_short by auto

theorem histogram_builders_witness:
  "buildHistogramSampled \<lparr>img_width = 0, img_height = 0, img_data = []\<rparr>
     = (replicate 256 0, replicate 256 0, replicate 256 0)
   \<and> img_width strip_image \<le> 2 ^ 29
   \<and> (case buildHistogramSampled strip_image of
         (hr, hg, hb) \<Rightarrow> hr ! 10 = 2 \<and> hr ! 1 = 0 \<and> hg ! 20 = 1 \<and> hg ! 21 = 1
                          \<and> hb ! 30 = 2 \<and> hb ! 255 = 0)
   \<and> [10, 20, 30, 255, 10, 21, 31, 255] \<noteq> ([] :: 8 word list)
   \<and> (case generateHistogram [10, 20, 30, 255, 10, 21, 31, 255] of
         (hr, hg, hb) \<Rightarrow> hr ! 10 = Fin 1 \<and> hr ! 20 = Fin 0 \<and> hg ! 20 = Fin (1 / 2)
                          \<and> hg ! 21 = Fin (1 / 2) \<and> hb ! 31 = Fin (1 / 2) \<and> hb ! 255 = Fin 0)"
proof -
  let ?e = "\<lparr>img_width = 0, img_height = 0, img_data = []\<rparr>"
  let ?d = "[10, 20, 30, 255, 10, 21, 31, 255] :: 8 word list"
  have w: "img_width strip_image \<le> 2 ^ 29" by (simp add: strip_image_def)
  have u: "unat (10 :: 8 word) = 10" "unat (1 :: 8 word) = 1" "unat (20 :: 8 word) = 20"
    "unat (21 :: 8 word) = 21" "unat (30 :: 8 word) = 30" "unat (31 :: 8 word) = 31"
    "unat (255 :: 8 word) = 255"
    by simp_all
  from histogram_builders [of ?e ?d]
  have 1: "buildHistogramSampled ?e = (replicate 256 0, replicate 256 0, replicate 256 0)"
    by simp
  obtain sr sg sb where s: "buildHistogramSampled strip_image = (sr, sg, sb)"
    by (cases "buildHistogramSampled strip_image") auto
  note T = histogram_builders [of strip_image ?d, unfolded s prod.case]
  from T w
  have sv: "sr ! unat v = of_nat (sampled_count strip_image 0 v)"
    "sg ! unat v = of_nat (sampled_count strip_image 1 v)"
    "sb ! unat v = of_nat (sampled_count strip_image 2 v)" for v
    by blast+
  have 2: "sr ! 10 = 2 \<and> sr ! 1 = 0 \<and> sg ! 20 = 1 \<and> sg ! 21 = 1 \<and> sb ! 30 = 2 \<and> sb ! 255 = 0"
    using sv(1) [of 10] sv(1) [of 1] sv(2) [of 20] sv(2) [of 21] sv(3) [of 30] sv(3) [of 255]
    unfolding u strip_counts by simp
  obtain hr hg hb where g: "generateHistogram ?d = (hr, hg, hb)"
    by (cases "generateHistogram ?d") auto
  from T
  obtain M where M: "0 < M" "\<And>v c. c < 3 \<Longrightarrow> channel_count ?d c v \<le> M"
    "\<exists>v c. c < 3 \<and> channel_count ?d c v = M"
    and gv: "\<And>v. hr ! unat v = Fin (real (channel_count ?d 0 v) / real M)"
      "\<And>v. hg ! unat v = Fin (real (channel_count ?d 1 v) / real M)"
      "\<And>v. hb ! unat v = Fin (real (channel_count ?d 2 v) / real M)"
    unfolding g prod.case by blast
  from M(2) [of 0 10] have "2 \<le> M" by (simp add: two_pixel_counts)
  moreover from M(3) have "M \<le> 2" by (auto simp: two_pixel_counts split: if_splits)
  ultimately have m: "M = 2" by simp
  have 3: "hr ! 10 = Fin 1 \<and> hr ! 20 = Fin 0 \<and> hg ! 20 = Fin (1 / 2)
         \<and> hg ! 21 = Fin (1 / 2) \<and> hb ! 31 = Fin (1 / 2) \<and> hb ! 255 = Fin 0"
    using gv(1) [of 10] gv(1) [of 20] gv(2) [of 20] gv(2) [of 21] gv(3) [of 31] gv(3) [of 255]
    unfolding u m by (simp add: two_pixel_counts)
  from 1 w 2 3 show ?thesis unfolding s g by simp
qed

theorem generateHistogram_normalizes_counterexample:
  "generateHistogram [] = (replicate 256 NaN, replicate 256 NaN, replicate 256 NaN)
   \<and> fst (generateHistogram [10, 20, 30, 255, 10, 20, 30, 255]) ! 10 = Fin 1"
  using generateHistogram_empty generateHistogram_two_pixels by simp

lemma example_Dexcess:
  "Dexcess_of (6 / 100) (199 / 100) example_lut (typed_at [0] (int 0)) 0 example_pre = Fin (3 / 2)"
  by (simp add: Dexcess_of_def example_lut_def example_pre_def typed_at_def mask_value_def
      logMask_of_def js_gt_def js_ge_def js_sub_def sigmoid_def wrap_int32_def Let_def)

lemma example_contrib:
  "contrib (6 / 100) (199 / 100) example_lut (typed_at [0] (int 0)) 0 example_pre = 3 / 2"
  unfolding contrib_def example_Dexcess by simp

lemma example_renderable: "gpu_renderable ilford_multigrade (replicate n example_exposure)"
  by (auto simp: gpu_renderable_def ilford_multigrade_def example_exposure_def
      finite_time_def valid_grade_def mask_ok_def dest!: in_set_takeD)

lemma exposure_uniforms_example:
  "exposure_uniforms ilford_multigrade example_exposure
     = Inr (Fin (ln 16 / ln 10), 42 / 10, Fin (ln 16 / ln 10), 0)"
proof -
  have m: "js_max (Fin (1 / 1000000)) (Fin 16) = Fin 16"
    by (simp add: js_max_def is_NaN_def js_gt_def)
  show ?thesis
    unfolding exposure_uniforms_def example_exposure_def
    by (simp add: ilford_multigrade_def gradeParams_at_def gp_def m js_log10_def)
qed

lemma byte_192: "round_u8 192 = 192" "round_u8 193 = 193" "round_u8 (38250 / 199) = 192"
proof -
  have "\<lfloor>(192::real) + 1 / 2\<rfloor> = 192" "\<lfloor>(193::real) + 1 / 2\<rfloor> = 193"
    "\<lfloor>(38250::real) / 199 + 1 / 2\<rfloor> = 192"
    by (simp_all add: floor_eq_iff)
  then show "round_u8 192 = 192" "round_u8 193 = 193" "round_u8 (38250 / 199) = 192"
    by (simp_all add: round_u8_def)
qed

lemma fetch_tuned: "fetchSigmoid (lut_unit tuned_engine) 0 = 150 / 199"
proof -
  have b: "tex_bytes (lut_unit tuned_engine) = [192, 193]"
    by (simp add: lut_unit_def maxExposures_def tuned_engine_def uploadLUT_def byte_192)
  have fl: "\<lfloor>(42::real) / 199\<rfloor> = 0" by (simp add: floor_eq_iff)
  have u: "unat (192 :: 8 word) = 192" "unat (193 :: 8 word) = 193" by simp_all
  show ?thesis
    unfolding fetchSigmoid_def texture_linear_def Let_def b
    by (simp add: lut_unit_def maxExposures_def tuned_engine_def uploadLUT_def byte_at_def
        clamp_index_def fl)
qed

lemma fetch_example: "fetchSigmoid (lut_unit example_engine) x = 192 / 255"
proof -
  have b: "tex_bytes (lut_unit example_engine) = [192]"
    by (simp add: lut_unit_def maxExposures_def example_engine_def uploadLUT_def example_lut_def
        byte_192)
  show ?thesis
    unfolding fetchSigmoid_def texture_linear_def Let_def b
    by (simp add: lut_unit_def maxExposures_def example_engine_def uploadLUT_def example_lut_def
        byte_at_def clamp_index_def)
qed

lemma single_extra_example:
  "single_extra example_engine ilford_multigrade (0, 0) example_exposure = 199 / 100 * (192 / 255)"
  "single_extra tuned_engine ilford_multigrade (0, 0) example_exposure = 3 / 2"
proof -
  have lt: "glsl_log10 (max (1 / 1000000)
       (byte_at (gpu_trans example_engine) (snd (0, 0) * fst (gpu_size example_engine) + fst (0, 0)))) = 0"
    "glsl_log10 (max (1 / 1000000)
       (byte_at (gpu_trans tuned_engine) (snd (0, 0) * fst (gpu_size tuned_engine) + fst (0, 0)))) = 0"
    by (simp_all add: example_engine_def tuned_engine_def byte_at_def glsl_log10_def)
  have m: "uploadMask1 example_exposure = Inr None"
    by (simp add: uploadMask1_def example_exposure_def)
  have x: "42 / 10 * (ln 16 / ln 10 - ln 16 / ln (10::real)) = 0" by simp
  show "single_extra example_engine ilford_multigrade (0, 0) example_exposure
          = 199 / 100 * (192 / 255)"
    unfolding single_extra_def exposure_uniforms_example m lt
    by (simp only: sum.case prod.case extra_of_single_nomask fetch_example)
       (simp add: ilford_Dmin ilford_Dmax)
  show "single_extra tuned_engine ilford_multigrade (0, 0) example_exposure = 3 / 2"
    unfolding single_extra_def exposure_uniforms_example m lt
    by (simp only: sum.case prod.case extra_of_single_nomask x fetch_tuned)
       (simp add: ilford_Dmin ilford_Dmax)
qed

text \<open>
  C1. For every paper (with Dmin \<le> Dmax) and every list of exposures, the accumulated
  excess density of a pixel is the sum of the excess densities of the exposures, clamped at
  Dmax - Dmin: on the CPU path Dsum = min (Dmax - Dmin) (sum of the excesses), the loop stops
  adding once the running sum has reached Dmax - Dmin (exposures after a saturating prefix
  change nothing), and the final density is min (Dmin + Dsum) Dmax, in [Dmin, Dmax]; on the
  shader path the density is min (Dmin + sum of the excesses of the first twelve exposures)
  Dmax, in [Dmin, Dmax]. With Dmin = 0.06 and Dmax = 2.05, two exposures whose excess is
  1.5 each give a combined excess of 1.99 on the CPU path and the density 2.05 on the
  shader path.
\<close>

theorem excess_density_clamped:
  assumes "paper_Dmin pap \<le> paper_Dmax pap"
  shows "Dsum_pixel pap L logTrans ps j
           = Fin (min (paper_Dmax pap - paper_Dmin pap)
                   (sum_list (map (contrib (paper_Dmin pap) (paper_Dmax pap - paper_Dmin pap) L
                                     (typed_at logTrans (int j)) j) ps)))
       \<and> (\<exists>d. Dsum_pixel pap L logTrans ps j = Fin d
            \<and> 0 \<le> d \<and> d \<le> paper_Dmax pap - paper_Dmin pap
            \<and> Dfinal_pixel pap L logTrans ps j = Fin (min (paper_Dmin pap + d) (paper_Dmax pap))
            \<and> paper_Dmin pap \<le> min (paper_Dmin pap + d) (paper_Dmax pap)
            \<and> min (paper_Dmin pap + d) (paper_Dmax pap) \<le> paper_Dmax pap)
       \<and> (Dsum_pixel pap L logTrans ps j = Fin (paper_Dmax pap - paper_Dmin pap)
            \<longrightarrow> Dsum_pixel pap L logTrans (ps @ qs) j = Fin (paper_Dmax pap - paper_Dmin pap))
       \<and> (0 < contrib (paper_Dmin pap) (paper_Dmax pap - paper_Dmin pap) L lT j ex
            \<and> paper_Dmax pap - paper_Dmin pap
                \<le> s + contrib (paper_Dmin pap) (paper_Dmax pap - paper_Dmin pap) L lT j ex
            \<longrightarrow> accumulate (paper_Dmin pap) (paper_Dmax pap - paper_Dmin pap) L lT j (ex # rest) (Fin s)
                  = Fin (paper_Dmax pap - paper_Dmin pap))
       \<and> (gpu_renderable pap exposures
            \<longrightarrow> gpu_density eng pap exposures px
                  = Inr (Some (min (paper_Dmin pap
                                    + sum_list (map (single_extra eng pap px)
                                                  (take maxExposures exposures)))
                                 (paper_Dmax pap)))
                \<and> (\<exists>d. gpu_density eng pap exposures px = Inr (Some d)
                      \<and> paper_Dmin pap \<le> d \<and> d \<le> paper_Dmax pap))
       \<and> (paper_Dmin pap = 6 / 100 \<and> paper_Dmax pap = 205 / 100
            \<and> Dexcess_of (6 / 100) (199 / 100) L (typed_at logTrans (int j)) j e1 = Fin (3 / 2)
            \<and> Dexcess_of (6 / 100) (199 / 100) L (typed_at logTrans (int j)) j e2 = Fin (3 / 2)
            \<longrightarrow> Dsum_pixel pap L logTrans [e1, e2] j = Fin (199 / 100))
       \<and> (paper_Dmin pap = 6 / 100 \<and> paper_Dmax pap = 205 / 100
            \<and> gpu_renderable pap [x1, x2]
            \<and> single_extra eng pap px x1 = 3 / 2 \<and> single_extra eng pap px x2 = 3 / 2
            \<longrightarrow> gpu_density eng pap [x1, x2] px = Inr (Some (205 / 100)))"
proof -
  let ?span = "paper_Dmax pap - paper_Dmin pap"
  let ?c = "contrib (paper_Dmin pap) ?span L (typed_at logTrans (int j)) j"
  define d where "d = min ?span (sum_list (map ?c ps))"
  have D: "Dsum_pixel pap L logTrans ps j = Fin d"
    unfolding d_def by (rule Dsum_pixel_eq [OF assms])
  have d0: "0 \<le> d" and d1: "d \<le> ?span"
    using assms contrib_sum_nonneg [of "paper_Dmin pap" ?span L "typed_at logTrans (int j)" j ps]
    by (simp_all add: d_def)
  have A: "\<exists>d. Dsum_pixel pap L logTrans ps j = Fin d
            \<and> 0 \<le> d \<and> d \<le> ?span
            \<and> Dfinal_pixel pap L logTrans ps j = Fin (min (paper_Dmin pap + d) (paper_Dmax pap))
            \<and> paper_Dmin pap \<le> min (paper_Dmin pap + d) (paper_Dmax pap)
            \<and> min (paper_Dmin pap + d) (paper_Dmax pap) \<le> paper_Dmax pap"
    using D d0 d1 Dfinal_pixel_eq [OF assms D] assms by (intro exI [of _ d]) simp
  have B: "Dsum_pixel pap L logTrans (ps @ qs) j = Fin ?span"
    if "Dsum_pixel pap L logTrans ps j = Fin ?span"
  proof -
    from that D have "d = ?span" by simp
    then have "?span \<le> sum_list (map ?c ps)" by (simp add: d_def min_def split: if_splits)
    with contrib_sum_nonneg [of "paper_Dmin pap" ?span L "typed_at logTrans (int j)" j qs]
    show ?thesis by (simp add: Dsum_pixel_eq [OF assms])
  qed
  have C: "gpu_density eng pap exposures px
             = Inr (Some (min (paper_Dmin pap
                               + sum_list (map (single_extra eng pap px)
                                             (take maxExposures exposures)))
                            (paper_Dmax pap)))
           \<and> (\<exists>d. gpu_density eng pap exposures px = Inr (Some d)
                 \<and> paper_Dmin pap \<le> d \<and> d \<le> paper_Dmax pap)"
    if "gpu_renderable pap exposures"
    using gpu_density_sum [OF that] gpu_density_total [OF that assms] by blast
  have E: "Dsum_pixel pap L logTrans [e1, e2] j = Fin (199 / 100)"
    if "paper_Dmin pap = 6 / 100 \<and> paper_Dmax pap = 205 / 100
        \<and> Dexcess_of (6 / 100) (199 / 100) L (typed_at logTrans (int j)) j e1 = Fin (3 / 2)
        \<and> Dexcess_of (6 / 100) (199 / 100) L (typed_at logTrans (int j)) j e2 = Fin (3 / 2)"
  proof -
    from that have mn: "paper_Dmin pap = 6 / 100" and mx: "paper_Dmax pap = 205 / 100"
      by blast+
    have sp: "paper_Dmax pap - paper_Dmin pap = 199 / 100"
      unfolding mn mx by simp
    from that have c1: "contrib (6 / 100) (199 / 100) L (typed_at logTrans (int j)) j e1 = 3 / 2"
      and c2: "contrib (6 / 100) (199 / 100) L (typed_at logTrans (int j)) j e2 = 3 / 2"
      by (simp_all add: contrib_def)
    show ?thesis
      unfolding Dsum_pixel_eq [OF assms] sp unfolding mn using c1 c2 by simp
  qed
  have F: "gpu_density eng pap [x1, x2] px = Inr (Some (205 / 100))"
    if "paper_Dmin pap = 6 / 100 \<and> paper_Dmax pap = 205 / 100
        \<and> gpu_renderable pap [x1, x2]
        \<and> single_extra eng pap px x1 = 3 / 2 \<and> single_extra eng pap px x2 = 3 / 2"
  proof -
    from that have r: "gpu_renderable pap [x1, x2]" by blast
    from that show ?thesis
      unfolding gpu_density_sum [OF r] by (simp add: maxExposures_def)
  qed
  have G: "accumulate (paper_Dmin pap) ?span L lT j (ex # rest) (Fin s) = Fin ?span"
    if "0 < contrib (paper_Dmin pap) ?span L lT j ex
        \<and> ?span \<le> s + contrib (paper_Dmin pap) ?span L lT j ex"
    using that unfolding accumulate_step by (simp add: Let_def)
  from D [unfolded d_def] A B C E F G show ?thesis by blast
qed

theorem excess_density_clamped_witness:
  "paper_Dmin ilford_multigrade \<le> paper_Dmax ilford_multigrade
   \<and> Dexcess_of (6 / 100) (199 / 100) example_lut (typed_at [0] (int 0)) 0 example_pre = Fin (3 / 2)
   \<and> Dsum_pixel ilford_multigrade example_lut [0] [example_pre] 0 = Fin (3 / 2)
   \<and> Dfinal_pixel ilford_multigrade example_lut [0] [example_pre] 0 = Fin (156 / 100)
   \<and> Dsum_pixel ilford_multigrade example_lut [0] [example_pre, example_pre] 0 = Fin (199 / 100)
   \<and> Dfinal_pixel ilford_multigrade example_lut [0] [example_pre, example_pre] 0 = Fin (205 / 100)
   \<and> Dsum_pixel ilford_multigrade example_lut [0] ([example_pre, example_pre] @ [example_pre]) 0
       = Fin (199 / 100)
   \<and> accumulate (6 / 100) (199 / 100) example_lut (typed_at [0] (int 0)) 0
         (example_pre # [example_pre]) (Fin (3 / 2)) = Fin (199 / 100)
   \<and> gpu_renderable ilford_multigrade [example_exposure]
   \<and> gpu_density example_engine ilford_multigrade [example_exposure] (0, 0)
       = Inr (Some (6 / 100 + 199 / 100 * (192 / 255)))
   \<and> gpu_renderable ilford_multigrade [example_exposure, example_exposure]
   \<and> single_extra tuned_engine ilford_multigrade (0, 0) example_exposure = 3 / 2
   \<and> gpu_density tuned_engine ilford_multigrade [example_exposure, example_exposure] (0, 0)
       = Inr (Some (205 / 100))"
proof -
  have h: "paper_Dmin ilford_multigrade \<le> paper_Dmax ilford_multigrade"
    by (simp add: ilford_multigrade_def)
  have mn: "paper_Dmin ilford_multigrade = 6 / 100" and mx: "paper_Dmax ilford_multigrade = 205 / 100"
    by (simp_all add: ilford_multigrade_def)
  have sp: "paper_Dmax ilford_multigrade - paper_Dmin ilford_multigrade = 199 / 100"
    by (simp add: mn mx)
  have r1: "gpu_renderable ilford_multigrade [example_exposure]"
    using example_renderable [of 1] by simp
  have r2: "gpu_renderable ilford_multigrade [example_exposure, example_exposure]"
    using example_renderable [of 2] by (simp add: numeral_2_eq_2)
  note T1 = excess_density_clamped [OF h, where L = example_lut and logTrans = "[0]"
      and ps = "[example_pre]" and j = 0 and qs = "[]" and exposures = "[example_exposure]"
      and eng = example_engine and px = "(0, 0)" and ?e1.0 = example_pre and ?e2.0 = example_pre
      and ?x1.0 = example_exposure and ?x2.0 = example_exposure
      and lT = "typed_at [0] (int 0)" and ex = example_pre and rest = "[example_pre]"
      and s = "3 / 2"]
  note T2 = excess_density_clamped [OF h, where L = example_lut and logTrans = "[0]"
      and ps = "[example_pre, example_pre]" and j = 0 and qs = "[example_pre]"
      and exposures = "[example_exposure, example_exposure]"
      and eng = tuned_engine and px = "(0, 0)" and ?e1.0 = example_pre and ?e2.0 = example_pre
      and ?x1.0 = example_exposure and ?x2.0 = example_exposure
      and lT = "typed_at [0] (int 0)" and ex = example_pre and rest = "[example_pre]"
      and s = "3 / 2"]
  note U1 = T1 [unfolded sp, unfolded mn mx]
  note U2 = T2 [unfolded sp, unfolded mn mx]
  from U1 have "Dsum_pixel ilford_multigrade example_lut [0] [example_pre] 0
      = Fin (min (199 / 100)
              (sum_list (map (contrib (6 / 100) (199 / 100) example_lut (typed_at [0] (int 0)) 0)
                           [example_pre])))"
    by blast
  then have S1: "Dsum_pixel ilford_multigrade example_lut [0] [example_pre] 0 = Fin (3 / 2)"
    unfolding list.map sum_list.Cons sum_list.Nil example_contrib by simp
  from U1 S1 have F1: "Dfinal_pixel ilford_multigrade example_lut [0] [example_pre] 0 = Fin (156 / 100)"
    by auto
  from U2 example_Dexcess
  have S2: "Dsum_pixel ilford_multigrade example_lut [0] [example_pre, example_pre] 0 = Fin (199 / 100)"
    by blast
  from U2 S2 have F2: "Dfinal_pixel ilford_multigrade example_lut [0] [example_pre, example_pre] 0
      = Fin (205 / 100)"
    by auto
  from U2 S2 have A: "Dsum_pixel ilford_multigrade example_lut [0]
      ([example_pre, example_pre] @ [example_pre]) 0 = Fin (199 / 100)"
    by blast
  have "0 < contrib (6 / 100) (199 / 100) example_lut (typed_at [0] (int 0)) 0 example_pre
      \<and> 199 / 100 \<le> 3 / 2 + contrib (6 / 100) (199 / 100) example_lut (typed_at [0] (int 0)) 0
                                 example_pre"
    unfolding example_contrib by simp
  with U1 have E: "accumulate (6 / 100) (199 / 100) example_lut (typed_at [0] (int 0)) 0
         (example_pre # [example_pre]) (Fin (3 / 2)) = Fin (199 / 100)"
    by blast
  from U1 r1 have "gpu_density example_engine ilford_multigrade [example_exposure] (0, 0)
       = Inr (Some (min (6 / 100
                         + sum_list (map (single_extra example_engine ilford_multigrade (0, 0))
                                       (take maxExposures [example_exposure])))
                      (205 / 100)))"
    by blast
  then have G1: "gpu_density example_engine ilford_multigrade [example_exposure] (0, 0)
       = Inr (Some (6 / 100 + 199 / 100 * (192 / 255)))"
    by (simp add: maxExposures_def single_extra_example)
  from U2 r2 single_extra_example(2)
  have G2: "gpu_density tuned_engine ilford_multigrade [example_exposure, example_exposure] (0, 0)
       = Inr (Some (205 / 100))"
    by blast
  from h example_Dexcess S1 F1 S2 F2 A E r1 G1 r2 single_extra_example(2) G2
  show ?thesis by blast
qed


















end
